theory Spec2Isabelle
  imports Main
begin

section \<open>Data model of the tab/window reconciliation core\<close>

text \<open>
  The source keeps its state in Immutable.js records. A record field that is removed
  falls back to the default value declared for it, so \<open>remove\<close> is modelled as an
  update with that default. A nullable field is an \<open>option\<close>. Errors thrown by the
  source are values of type \<open>error\<close>; a function that can throw returns
  \<open>error + 'a\<close> with \<open>Inl\<close> for the error.
\<close>

datatype error =
    UnexpectedSavedStateAccess  \<comment> \<open>thrown by the getter safeSavedState\<close>
  | UnexpectedOpenStateAccess   \<comment> \<open>thrown by the getter safeOpenState\<close>
  | TypeError                   \<comment> \<open>a property read or a method call on null or undefined\<close>

record SavedTabState =
  bookmarkId :: string
  bookmarkIndex :: int
  s_title :: string
  s_url :: string

record OpenTabState =
  o_url :: string
  openTabId :: int
  active :: bool
  openTabIndex :: int
  favIconUrl :: string
  o_title :: string
  audible :: bool
  o_pinned :: bool

record TabItem =
  ti_saved :: bool
  savedState :: "SavedTabState option"
  ti_open :: bool
  openState :: "OpenTabState option"

record TabWindow =
  tw_saved :: bool
  savedTitle :: string
  savedFolderId :: string
  tw_open :: bool
  openWindowId :: int
  windowType :: string
  tw_width :: int
  tw_height :: int
  tabItems :: "TabItem list"
  snapshot :: bool
  chromeSessionId :: "string option"
  expanded :: "bool option"

text \<open>The shapes the core consumes from the browser: a live tab, a bookmark node, a live window.
  A field read through \<open>_.get\<close> with a default may be missing, so it is an option.\<close>

record ChromeTab =
  tab_url :: "string option"
  tab_title :: "string option"
  tab_id :: int
  tab_index :: int
  tab_active :: bool
  tab_pinned :: bool
  tab_audible :: bool
  tab_favIconUrl :: string

record BookmarkNode =
  bm_url :: "string option"
  bm_title :: "string option"
  bm_id :: string
  bm_index :: int

record ChromeWindow =
  cw_id :: int
  cw_type :: string
  cw_width :: int
  cw_height :: int
  cw_tabs :: "ChromeTab list option"

text \<open>
  A change-info payload is a partial mapping from field names to values. Only the keys that
  name a field of the open state or of the saved state are ever read (through the key
  intersection and through \<open>_.has(changeInfo, 'url')\<close>), so the payload is a record of
  optional values, one per such field name; \<open>None\<close> is an absent key.
\<close>

record ChangeInfo =
  c_url :: "string option"
  c_title :: "string option"
  c_openTabId :: "int option"
  c_active :: "bool option"
  c_openTabIndex :: "int option"
  c_favIconUrl :: "string option"
  c_audible :: "bool option"
  c_pinned :: "bool option"
  c_bookmarkId :: "string option"
  c_bookmarkIndex :: "int option"

subsection \<open>Getters of TabItem\<close>

definition tabUrl :: "TabItem \<Rightarrow> string" where
  "tabUrl ti =
     (case (if ti_open ti then openState ti else None) of
        Some os \<Rightarrow> o_url os
      | None \<Rightarrow> (case savedState ti of Some ss \<Rightarrow> s_url ss | None \<Rightarrow> ''''))"

definition safeSavedState :: "TabItem \<Rightarrow> error + SavedTabState" where
  "safeSavedState ti =
     (case (if ti_saved ti then savedState ti else None) of
        Some ss \<Rightarrow> Inr ss
      | None \<Rightarrow> Inl UnexpectedSavedStateAccess)"

definition safeOpenState :: "TabItem \<Rightarrow> error + OpenTabState" where
  "safeOpenState ti =
     (case (if ti_open ti then openState ti else None) of
        Some os \<Rightarrow> Inr os
      | None \<Rightarrow> Inl UnexpectedOpenStateAccess)"

subsection \<open>Constructors and resets\<close>

definition makeSavedTabState :: "BookmarkNode \<Rightarrow> SavedTabState" where
  "makeSavedTabState bm =
     (let url = (case bm_url bm of Some u \<Rightarrow> u | None \<Rightarrow> '''')
      in \<lparr>bookmarkId = bm_id bm, bookmarkIndex = bm_index bm,
          s_title = (case bm_title bm of Some t \<Rightarrow> t | None \<Rightarrow> url), s_url = url\<rparr>)"

definition makeBookmarkedTabItem :: "BookmarkNode \<Rightarrow> TabItem" where
  "makeBookmarkedTabItem bm =
     \<lparr>ti_saved = True, savedState = Some (makeSavedTabState bm),
      ti_open = False, openState = None\<rparr>"

definition makeOpenTabState :: "ChromeTab \<Rightarrow> OpenTabState" where
  "makeOpenTabState tab =
     (let url = (case tab_url tab of Some u \<Rightarrow> u | None \<Rightarrow> '''')
      in \<lparr>o_url = url, openTabId = tab_id tab, active = tab_active tab,
          openTabIndex = tab_index tab, favIconUrl = tab_favIconUrl tab,
          o_title = (case tab_title tab of Some t \<Rightarrow> t | None \<Rightarrow> url),
          audible = tab_audible tab, o_pinned = tab_pinned tab\<rparr>)"

definition makeOpenTabItem :: "ChromeTab \<Rightarrow> TabItem" where
  "makeOpenTabItem tab =
     \<lparr>ti_saved = False, savedState = None,
      ti_open = True, openState = Some (makeOpenTabState tab)\<rparr>"

definition resetSavedItem :: "TabItem \<Rightarrow> TabItem" where
  "resetSavedItem ti = ti\<lparr>ti_open := False, openState := None\<rparr>"

definition resetOpenItem :: "TabItem \<Rightarrow> TabItem" where
  "resetOpenItem ti = ti\<lparr>ti_saved := False, savedState := None\<rparr>"

text \<open>\<open>os.remove('openTabId')\<close> puts the default \<open>-1\<close> back; on an open item whose
  open state is null the updater dereferences null.\<close>

definition cleanOpenState :: "TabItem \<Rightarrow> error + TabItem" where
  "cleanOpenState ti =
     (if \<not> ti_open ti then Inr ti
      else (case openState ti of
              None \<Rightarrow> Inl TypeError
            | Some os \<Rightarrow> Inr (ti\<lparr>openState := Some (os\<lparr>openTabId := - 1\<rparr>)\<rparr>)))"

subsection \<open>Sequence helpers\<close>

text \<open>A map over a list whose function may throw: the first error aborts the whole map.\<close>

fun mapE :: "('a \<Rightarrow> error + 'b) \<Rightarrow> 'a list \<Rightarrow> error + 'b list" where
  "mapE f [] = Inr []"
| "mapE f (x # xs) =
     (case f x of
        Inl e \<Rightarrow> Inl e
      | Inr y \<Rightarrow> (case mapE f xs of Inl e \<Rightarrow> Inl e | Inr ys \<Rightarrow> Inr (y # ys)))"

text \<open>Immutable's \<open>List.splice(index, removeNum, ...values)\<close>: a negative index counts
  from the end and is clamped at 0, an index past the end is clamped at the size.\<close>

definition resolveBegin :: "int \<Rightarrow> nat \<Rightarrow> nat" where
  "resolveBegin idx sz =
     (if idx < 0 then nat (max 0 (int sz + idx)) else min sz (nat idx))"

definition listSplice :: "int \<Rightarrow> nat \<Rightarrow> 'a list \<Rightarrow> 'a list \<Rightarrow> 'a list" where
  "listSplice idx removeNum vals xs =
     (let i = resolveBegin idx (length xs)
      in take i xs @ vals @ drop (i + removeNum) xs)"

text \<open>\<open>List.findEntry\<close>: the first index and element satisfying the predicate.\<close>

fun findEntryFrom :: "nat \<Rightarrow> ('a \<Rightarrow> bool) \<Rightarrow> 'a list \<Rightarrow> (nat \<times> 'a) option" where
  "findEntryFrom n p [] = None"
| "findEntryFrom n p (x # xs) = (if p x then Some (n, x) else findEntryFrom (Suc n) p xs)"

definition findEntry :: "('a \<Rightarrow> bool) \<Rightarrow> 'a list \<Rightarrow> (nat \<times> 'a) option" where
  "findEntry p xs = findEntryFrom 0 p xs"

text \<open>\<open>List.indexOf\<close>: the first index holding a value equal to the target, or \<open>-1\<close>.\<close>

fun indexOfFrom :: "int \<Rightarrow> 'a \<Rightarrow> 'a list \<Rightarrow> int" where
  "indexOfFrom n t [] = - 1"
| "indexOfFrom n t (x # xs) = (if x = t then n else indexOfFrom (n + 1) t xs)"

section \<open>The merge engine\<close>

text \<open>The three anonymous functions of \<open>mergeSavedOpenTabs\<close>: the entry of a saved item
  in the URL lookup (it reads the safe accessor, so it may throw), the enrichment of one
  open item from the lookup, and the test that keeps a saved item as closed.\<close>

definition savedUrlEntry :: "TabItem \<Rightarrow> error + (string \<times> TabItem)" where
  "savedUrlEntry ti =
     (case safeSavedState ti of Inl e \<Rightarrow> Inl e | Inr ss \<Rightarrow> Inr (s_url ss, ti))"

definition mergeOpenItem :: "(string \<rightharpoonup> TabItem) \<Rightarrow> TabItem \<Rightarrow> TabItem" where
  "mergeOpenItem savedUrlMap openItem =
     (case (case openState openItem of
              Some os \<Rightarrow> savedUrlMap (o_url os)
            | None \<Rightarrow> None) of
        Some savedItem \<Rightarrow> openItem\<lparr>ti_saved := True, savedState := savedState savedItem\<rparr>
      | None \<Rightarrow> openItem)"

definition notOpenSaved :: "string set \<Rightarrow> TabItem \<Rightarrow> bool" where
  "notOpenSaved openUrlSet savedItem =
     (case savedState savedItem of
        Some ss \<Rightarrow> s_url ss \<notin> openUrlSet
      | None \<Rightarrow> False)"

text \<open>\<open>Immutable.Map\<close> built from a list of entries keeps the last entry of a key:
  \<open>map_of\<close> keeps the first, so it reads the reversed list.\<close>

definition mergeSavedOpenTabs :: "TabItem list \<Rightarrow> TabItem list \<Rightarrow> error + TabItem list" where
  "mergeSavedOpenTabs savedItems openItems =
     (let openUrlSet = set (map tabUrl openItems)
      in case mapE savedUrlEntry savedItems of
           Inl e \<Rightarrow> Inl e
         | Inr entries \<Rightarrow>
             (let savedUrlMap = map_of (rev entries);
                  openTabItems = map (mergeOpenItem savedUrlMap) openItems;
                  closedTabItems = filter (notOpenSaved openUrlSet) savedItems
              in Inr (openTabItems @ closedTabItems)))"


section \<open>TabWindow accessors\<close>

text \<open>String concatenation with a number prints the number in decimal.\<close>

fun showNat :: "nat \<Rightarrow> string" where
  "showNat n =
     (if n < 10 then [''0123456789'' ! n]
      else showNat (n div 10) @ [''0123456789'' ! (n mod 10)])"

declare showNat.simps [simp del]

definition showInt :: "int \<Rightarrow> string" where
  "showInt i = (if i < 0 then CHR ''-'' # showNat (nat (- i)) else showNat (nat i))"

text \<open>The getter \<open>id\<close>. Its cache lives on the instance and every update builds a new
  instance, so the getter is a function of the fields.\<close>

definition tabWindowId :: "TabWindow \<Rightarrow> string" where
  "tabWindowId w =
     (if tw_saved w then ''_saved'' @ savedFolderId w
      else ''_open'' @ showInt (openWindowId w))"

definition findChromeTabId :: "TabWindow \<Rightarrow> int \<Rightarrow> (nat \<times> TabItem) option" where
  "findChromeTabId w tabId =
     findEntry (\<lambda>ti. ti_open ti \<and>
                  (case openState ti of Some os \<Rightarrow> openTabId os = tabId | None \<Rightarrow> False))
       (tabItems w)"

definition indexOf :: "TabWindow \<Rightarrow> TabItem \<Rightarrow> int" where
  "indexOf w target = indexOfFrom 0 target (tabItems w)"

section \<open>Lifecycle operations\<close>

definition removeOpenWindowState :: "TabWindow \<Rightarrow> bool \<Rightarrow> error + TabWindow" where
  "removeOpenWindowState tabWindow snap =
     (case (if \<not> snap
            then Inr (map resetSavedItem (filter ti_saved (tabItems tabWindow)))
            else mapE cleanOpenState (tabItems tabWindow)) of
        Inl e \<Rightarrow> Inl e
      | Inr updTabItems \<Rightarrow>
          Inr (tabWindow\<lparr>tw_open := False, openWindowId := - 1, windowType := '''',
                 tw_width := 0, tw_height := 0, tabItems := updTabItems, snapshot := True\<rparr>))"

definition mergeOpenTabs :: "TabItem list \<Rightarrow> ChromeTab list \<Rightarrow> error + TabItem list" where
  "mergeOpenTabs items openTabs =
     (let baseSavedItems = map resetSavedItem (filter ti_saved items);
          chromeOpenTabItems = map makeOpenTabItem openTabs
      in mergeSavedOpenTabs baseSavedItems chromeOpenTabItems)"

definition mergeTabWindowTabItems ::
    "TabWindow \<Rightarrow> ChromeTab option \<Rightarrow> BookmarkNode option \<Rightarrow> error + TabWindow" where
  "mergeTabWindowTabItems tabWindow optChromeTab optBookmark =
     (let items = tabItems tabWindow;
          baseSavedItems = map resetSavedItem (filter ti_saved items);
          baseOpenItems = map resetOpenItem (filter ti_open items);
          updOpenItems = (case optChromeTab of
                            Some tab \<Rightarrow> listSplice (tab_index tab) 0 [makeOpenTabItem tab] baseOpenItems
                          | None \<Rightarrow> baseOpenItems);
          updSavedItems = (case optBookmark of
                             Some bm \<Rightarrow> baseSavedItems @ [makeBookmarkedTabItem bm]
                           | None \<Rightarrow> baseSavedItems)
      in case mergeSavedOpenTabs updSavedItems updOpenItems of
           Inl e \<Rightarrow> Inl e
         | Inr mergedItems \<Rightarrow> Inr (tabWindow\<lparr>tabItems := mergedItems\<rparr>))"

definition createTab :: "TabWindow \<Rightarrow> ChromeTab \<Rightarrow> error + TabWindow" where
  "createTab tabWindow tab = mergeTabWindowTabItems tabWindow (Some tab) None"

definition createSavedTab :: "TabWindow \<Rightarrow> ChromeTab \<Rightarrow> BookmarkNode \<Rightarrow> error + TabWindow" where
  "createSavedTab tabWindow tab bmNode = mergeTabWindowTabItems tabWindow (Some tab) (Some bmNode)"

definition createBookmark :: "TabWindow \<Rightarrow> BookmarkNode \<Rightarrow> error + TabWindow" where
  "createBookmark tabWindow bm = mergeTabWindowTabItems tabWindow None (Some bm)"

text \<open>\<open>chromeWindow.tabs.map\<close> dereferences \<open>tabs\<close>, which throws when it is missing.\<close>

definition updateWindow :: "TabWindow \<Rightarrow> ChromeWindow \<Rightarrow> error + TabWindow" where
  "updateWindow tabWindow chromeWindow =
     (case cw_tabs chromeWindow of
        None \<Rightarrow> Inl TypeError
      | Some tabs \<Rightarrow>
          (case mergeOpenTabs (tabItems tabWindow) tabs of
             Inl e \<Rightarrow> Inl e
           | Inr mergedTabItems \<Rightarrow>
               Inr (tabWindow\<lparr>tabItems := mergedTabItems, windowType := cw_type chromeWindow,
                      tw_open := True, openWindowId := cw_id chromeWindow,
                      snapshot := False, chromeSessionId := None\<rparr>)))"

definition closeTab :: "TabWindow \<Rightarrow> int \<Rightarrow> TabWindow" where
  "closeTab tabWindow tabId =
     (case findChromeTabId tabWindow tabId of
        None \<Rightarrow> tabWindow
      | Some (index, tabItem) \<Rightarrow>
          (let updItems =
                 (if ti_saved tabItem
                  then listSplice (int index) 1 [resetSavedItem tabItem] (tabItems tabWindow)
                  else listSplice (int index) 1 [] (tabItems tabWindow))
           in tabWindow\<lparr>tabItems := updItems\<rparr>))"

text \<open>\<open>new SavedTabState(tabNode)\<close> copies the fields that carry the record's own names;
  a bookmark node has \<open>title\<close> and \<open>url\<close> but names its identity \<open>id\<close> and
  \<open>index\<close>, so the two bookmark fields keep their defaults.\<close>

definition savedStateOfNode :: "BookmarkNode \<Rightarrow> SavedTabState" where
  "savedStateOfNode tabNode =
     \<lparr>bookmarkId = '''', bookmarkIndex = 0,
      s_title = (case bm_title tabNode of Some t \<Rightarrow> t | None \<Rightarrow> ''''),
      s_url = (case bm_url tabNode of Some u \<Rightarrow> u | None \<Rightarrow> '''')\<rparr>"

definition saveTab :: "TabWindow \<Rightarrow> TabItem \<Rightarrow> BookmarkNode \<Rightarrow> error + TabWindow" where
  "saveTab tabWindow tabItem tabNode =
     (case safeOpenState tabItem of
        Inl e \<Rightarrow> Inl e
      | Inr os \<Rightarrow>
          (case findChromeTabId tabWindow (openTabId os) of
             None \<Rightarrow> Inr tabWindow
           | Some (index, _) \<Rightarrow>
               (let savedState' = savedStateOfNode tabNode;
                    updTabItem = tabItem\<lparr>ti_saved := True, savedState := Some savedState'\<rparr>;
                    updItems = listSplice (int index) 1 [updTabItem] (tabItems tabWindow)
                in Inr (tabWindow\<lparr>tabItems := updItems\<rparr>))))"

text \<open>\<open>findEntry\<close> with a predicate that reads safe accessors and so may throw.\<close>

fun findEntryFromE ::
    "nat \<Rightarrow> ('a \<Rightarrow> error + bool) \<Rightarrow> 'a list \<Rightarrow> error + (nat \<times> 'a) option" where
  "findEntryFromE n p [] = Inr None"
| "findEntryFromE n p (x # xs) =
     (case p x of
        Inl e \<Rightarrow> Inl e
      | Inr b \<Rightarrow> (if b then Inr (Some (n, x)) else findEntryFromE (Suc n) p xs))"

definition sameBookmark :: "TabItem \<Rightarrow> TabItem \<Rightarrow> error + bool" where
  "sameBookmark tabItem ti =
     (if \<not> ti_saved ti then Inr False
      else (case safeSavedState ti of
              Inl e \<Rightarrow> Inl e
            | Inr a \<Rightarrow> (case safeSavedState tabItem of
                         Inl e \<Rightarrow> Inl e
                       | Inr b \<Rightarrow> Inr (bookmarkId a = bookmarkId b))))"

definition unsaveTab :: "TabWindow \<Rightarrow> TabItem \<Rightarrow> error + TabWindow" where
  "unsaveTab tabWindow tabItem =
     (case findEntryFromE 0 (sameBookmark tabItem) (tabItems tabWindow) of
        Inl e \<Rightarrow> Inl e
      | Inr None \<Rightarrow> Inr tabWindow
      | Inr (Some (index, sourceTabItem)) \<Rightarrow>
          (let updTabItem = resetOpenItem sourceTabItem;
               updItems =
                 (if ti_open updTabItem
                  then listSplice (int index) 1 [updTabItem] (tabItems tabWindow)
                  else listSplice (int index) 1 [] (tabItems tabWindow))
           in Inr (tabWindow\<lparr>tabItems := updItems\<rparr>)))"

text \<open>\<open>setActiveTab\<close> reads \<open>tabItem.active\<close>. A TabItem declares the fields saved,
  savedState, open and openState and the getters title, url, pinned, safeSavedState and
  safeOpenState: it has no property \<open>active\<close>, the read gives undefined, and the test
  on it never succeeds.\<close>

definition tabItemActive :: "TabItem \<Rightarrow> bool" where
  "tabItemActive ti = False"

definition tabItemRemoveActive :: "TabItem \<Rightarrow> error + TabItem" where
  "tabItemRemoveActive ti =
     (if ti_open ti
      then (case safeOpenState ti of
              Inl e \<Rightarrow> Inl e
            | Inr os \<Rightarrow> Inr (ti\<lparr>openState := Some (os\<lparr>active := False\<rparr>)\<rparr>))
      else Inr ti)"

definition setActiveTab :: "TabWindow \<Rightarrow> int \<Rightarrow> error + TabWindow" where
  "setActiveTab tabWindow tabId =
     (case findChromeTabId tabWindow tabId of
        None \<Rightarrow> Inr tabWindow
      | Some (index, tabItem) \<Rightarrow>
          (if tabItemActive tabItem then Inr tabWindow
           else (case mapE tabItemRemoveActive (tabItems tabWindow) of
                   Inl e \<Rightarrow> Inl e
                 | Inr nonActiveItems \<Rightarrow>
                     (case safeOpenState tabItem of
                        Inl e \<Rightarrow> Inl e
                      | Inr os \<Rightarrow>
                          (let updOpenState = os\<lparr>active := True\<rparr>;
                               updActiveTab = tabItem\<lparr>openState := Some updOpenState\<rparr>;
                               updItems = listSplice (int index) 1 [updActiveTab] nonActiveItems
                           in Inr (tabWindow\<lparr>tabItems := updItems\<rparr>))))))"

subsection \<open>Field patches from a change-info payload\<close>

definition openStateKeys :: "string list" where
  "openStateKeys = [''url'', ''openTabId'', ''active'', ''openTabIndex'', ''favIconUrl'',
                    ''title'', ''audible'', ''pinned'']"

definition savedStateKeys :: "string list" where
  "savedStateKeys = [''bookmarkId'', ''bookmarkIndex'', ''title'', ''url'']"

definition changeInfoKeys :: "ChangeInfo \<Rightarrow> string list" where
  "changeInfoKeys ci =
     (if c_url ci \<noteq> None then [''url''] else []) @
     (if c_title ci \<noteq> None then [''title''] else []) @
     (if c_openTabId ci \<noteq> None then [''openTabId''] else []) @
     (if c_active ci \<noteq> None then [''active''] else []) @
     (if c_openTabIndex ci \<noteq> None then [''openTabIndex''] else []) @
     (if c_favIconUrl ci \<noteq> None then [''favIconUrl''] else []) @
     (if c_audible ci \<noteq> None then [''audible''] else []) @
     (if c_pinned ci \<noteq> None then [''pinned''] else []) @
     (if c_bookmarkId ci \<noteq> None then [''bookmarkId''] else []) @
     (if c_bookmarkIndex ci \<noteq> None then [''bookmarkIndex''] else [])"

definition intersection :: "string list \<Rightarrow> string list \<Rightarrow> string list" where
  "intersection xs ys = filter (\<lambda>k. k \<in> set ys) (remdups xs)"

text \<open>\<open>acc.set(k, changeInfo[k])\<close> on an open state and on a saved state.\<close>

definition setOpenField :: "ChangeInfo \<Rightarrow> OpenTabState \<Rightarrow> string \<Rightarrow> OpenTabState" where
  "setOpenField ci acc k =
     (if k = ''url'' then (case c_url ci of Some v \<Rightarrow> acc\<lparr>o_url := v\<rparr> | None \<Rightarrow> acc)
      else if k = ''openTabId'' then
        (case c_openTabId ci of Some v \<Rightarrow> acc\<lparr>openTabId := v\<rparr> | None \<Rightarrow> acc)
      else if k = ''active'' then
        (case c_active ci of Some v \<Rightarrow> acc\<lparr>active := v\<rparr> | None \<Rightarrow> acc)
      else if k = ''openTabIndex'' then
        (case c_openTabIndex ci of Some v \<Rightarrow> acc\<lparr>openTabIndex := v\<rparr> | None \<Rightarrow> acc)
      else if k = ''favIconUrl'' then
        (case c_favIconUrl ci of Some v \<Rightarrow> acc\<lparr>favIconUrl := v\<rparr> | None \<Rightarrow> acc)
      else if k = ''title'' then
        (case c_title ci of Some v \<Rightarrow> acc\<lparr>o_title := v\<rparr> | None \<Rightarrow> acc)
      else if k = ''audible'' then
        (case c_audible ci of Some v \<Rightarrow> acc\<lparr>audible := v\<rparr> | None \<Rightarrow> acc)
      else if k = ''pinned'' then
        (case c_pinned ci of Some v \<Rightarrow> acc\<lparr>o_pinned := v\<rparr> | None \<Rightarrow> acc)
      else acc)"

definition setSavedField :: "ChangeInfo \<Rightarrow> SavedTabState \<Rightarrow> string \<Rightarrow> SavedTabState" where
  "setSavedField ci acc k =
     (if k = ''bookmarkId'' then
        (case c_bookmarkId ci of Some v \<Rightarrow> acc\<lparr>bookmarkId := v\<rparr> | None \<Rightarrow> acc)
      else if k = ''bookmarkIndex'' then
        (case c_bookmarkIndex ci of Some v \<Rightarrow> acc\<lparr>bookmarkIndex := v\<rparr> | None \<Rightarrow> acc)
      else if k = ''title'' then
        (case c_title ci of Some v \<Rightarrow> acc\<lparr>s_title := v\<rparr> | None \<Rightarrow> acc)
      else if k = ''url'' then
        (case c_url ci of Some v \<Rightarrow> acc\<lparr>s_url := v\<rparr> | None \<Rightarrow> acc)
      else acc)"

definition updateTabItem :: "TabWindow \<Rightarrow> int \<Rightarrow> ChangeInfo \<Rightarrow> error + TabWindow" where
  "updateTabItem tabWindow tabId changeInfo =
     (case findChromeTabId tabWindow tabId of
        None \<Rightarrow> Inr tabWindow
      | Some (index, prevTabItem) \<Rightarrow>
          (case openState prevTabItem of
             None \<Rightarrow> Inr tabWindow
           | Some prevOpenState \<Rightarrow>
               (let updKeys = intersection openStateKeys (changeInfoKeys changeInfo)
                in if updKeys = [] then Inr tabWindow
                   else (let updOpenState = foldl (setOpenField changeInfo) prevOpenState updKeys;
                             updTabItem = prevTabItem\<lparr>openState := Some updOpenState\<rparr>;
                             updItems = listSplice (int index) 1 [updTabItem] (tabItems tabWindow);
                             updWindow = tabWindow\<lparr>tabItems := updItems\<rparr>
                         in if c_url changeInfo \<noteq> None
                            then mergeTabWindowTabItems updWindow None None
                            else Inr updWindow))))"

text \<open>The guard of \<open>updateTabBookmark\<close> is \<open>if (!index)\<close> on the number returned by
  \<open>indexOf\<close>: it holds exactly when the index is 0.\<close>

definition updateTabBookmark :: "TabWindow \<Rightarrow> TabItem \<Rightarrow> ChangeInfo \<Rightarrow> error + TabWindow" where
  "updateTabBookmark tabWindow tabItem changeInfo =
     (let index = indexOf tabWindow tabItem
      in if index = 0 then Inr tabWindow
         else (case savedState tabItem of
                 None \<Rightarrow> Inr tabWindow
               | Some prevSavedState \<Rightarrow>
                   (let updKeys = intersection savedStateKeys (changeInfoKeys changeInfo)
                    in if updKeys = [] then Inr tabWindow
                       else (let updSavedState =
                                   foldl (setSavedField changeInfo) prevSavedState updKeys;
                                 updTabItem = tabItem\<lparr>savedState := Some updSavedState\<rparr>;
                                 updItems = listSplice index 1 [updTabItem] (tabItems tabWindow);
                                 updWindow = tabWindow\<lparr>tabItems := updItems\<rparr>
                             in if c_url changeInfo \<noteq> None
                                then mergeTabWindowTabItems updWindow None None
                                else Inr updWindow))))"

section \<open>Notions used to state the properties\<close>

text \<open>Whether an item is the active tab: the test \<open>t.open && t.openState.active\<close> of
  \<open>getActiveTabId\<close> and \<open>computeTitle\<close>, false on an item without open state.\<close>

definition tabActive :: "TabItem \<Rightarrow> bool" where
  "tabActive t =
     (case (if ti_open t then openState t else None) of Some os \<Rightarrow> active os | None \<Rightarrow> False)"

text \<open>An item with the live tab id of its open state put back to the default: what
  \<open>cleanOpenState\<close> returns when it returns.\<close>

definition stripOpenTabId :: "TabItem \<Rightarrow> TabItem" where
  "stripOpenTabId t = (case openState t of
       Some os \<Rightarrow> if ti_open t then t\<lparr>openState := Some (os\<lparr>openTabId := - 1\<rparr>)\<rparr> else t
     | None \<Rightarrow> t)"

section \<open>Example values\<close>

text \<open>The scenario of two bookmarks \<open>a.com\<close> and \<open>b.com\<close> and two live tabs
  \<open>b.com\<close> and \<open>c.com\<close>, and variations of it.\<close>

definition bmA :: BookmarkNode where
  "bmA = \<lparr>bm_url = Some ''a.com'', bm_title = Some ''A'', bm_id = ''1'', bm_index = 0\<rparr>"

definition bmB :: BookmarkNode where
  "bmB = \<lparr>bm_url = Some ''b.com'', bm_title = Some ''B'', bm_id = ''2'', bm_index = 1\<rparr>"

definition tabB :: ChromeTab where
  "tabB = \<lparr>tab_url = Some ''b.com'', tab_title = Some ''B'', tab_id = 11, tab_index = 0,
           tab_active = True, tab_pinned = False, tab_audible = False, tab_favIconUrl = ''''\<rparr>"

definition tabC :: ChromeTab where
  "tabC = \<lparr>tab_url = Some ''c.com'', tab_title = Some ''C'', tab_id = 12, tab_index = 1,
           tab_active = False, tab_pinned = False, tab_audible = False, tab_favIconUrl = ''''\<rparr>"

definition savedAB :: "TabItem list" where
  "savedAB = [makeBookmarkedTabItem bmA, makeBookmarkedTabItem bmB]"

definition openBC :: "TabItem list" where
  "openBC = [makeOpenTabItem tabB, makeOpenTabItem tabC]"

text \<open>A saved item that is open as well, on another URL than its bookmark.\<close>

definition savedOpenAC :: TabItem where
  "savedOpenAC = (makeOpenTabItem tabC)\<lparr>ti_saved := True, savedState := Some (makeSavedTabState bmA)\<rparr>"

definition winBCA :: TabWindow where
  "winBCA = \<lparr>tw_saved = True, savedTitle = ''W'', savedFolderId = ''f1'',
             tw_open = True, openWindowId = 7, windowType = ''normal'',
             tw_width = 800, tw_height = 600,
             tabItems = [(makeOpenTabItem tabB)\<lparr>ti_saved := True,
                            savedState := Some (makeSavedTabState bmB)\<rparr>,
                         makeOpenTabItem tabC, makeBookmarkedTabItem bmA],
             snapshot = False, chromeSessionId = None, expanded = None\<rparr>"

definition chromeBC :: ChromeWindow where
  "chromeBC = \<lparr>cw_id = 8, cw_type = ''normal'', cw_width = 800, cw_height = 600,
               cw_tabs = Some [tabB, tabC]\<rparr>"

definition bmD :: BookmarkNode where
  "bmD = \<lparr>bm_url = Some ''d.com'', bm_title = Some ''D'', bm_id = ''4'', bm_index = 3\<rparr>"

definition ciNone :: ChangeInfo where
  "ciNone = \<lparr>c_url = None, c_title = None, c_openTabId = None, c_active = None,
             c_openTabIndex = None, c_favIconUrl = None, c_audible = None, c_pinned = None,
             c_bookmarkId = None, c_bookmarkIndex = None\<rparr>"

definition ciTitle :: ChangeInfo where
  "ciTitle = ciNone\<lparr>c_title := Some ''New''\<rparr>"

definition ciUrl :: ChangeInfo where
  "ciUrl = ciNone\<lparr>c_url := Some ''new.com''\<rparr>"

definition tabB2 :: ChromeTab where
  "tabB2 = \<lparr>tab_url = Some ''b.com'', tab_title = Some ''B'', tab_id = 13, tab_index = 1,
            tab_active = False, tab_pinned = False, tab_audible = False, tab_favIconUrl = ''''\<rparr>"

text \<open>A saved window with two live tabs on the bookmarked URL, as the merge builds it.\<close>

definition winBB :: TabWindow where
  "winBB = winBCA\<lparr>tabItems :=
             [(makeOpenTabItem tabB)\<lparr>ti_saved := True, savedState := Some (makeSavedTabState bmB)\<rparr>,
              (makeOpenTabItem tabB2)\<lparr>ti_saved := True, savedState := Some (makeSavedTabState bmB)\<rparr>]\<rparr>"

section \<open>Properties of the merge engine\<close>

subsection \<open>Unfolding the example values\<close>

lemmas ex_defs = bmA_def bmB_def tabB_def tabC_def savedAB_def openBC_def savedOpenAC_def
  makeBookmarkedTabItem_def makeOpenTabItem_def makeSavedTabState_def makeOpenTabState_def

lemmas ex2_defs = winBCA_def chromeBC_def bmD_def ciNone_def ciTitle_def ciUrl_def

lemmas patch_defs = intersection_def openStateKeys_def savedStateKeys_def changeInfoKeys_def
  setOpenField_def setSavedField_def

subsection \<open>Maps that may throw\<close>

lemma mapE_Inr_map:
  "(\<And>x. x \<in> set xs \<Longrightarrow> f x = Inr (g x)) \<Longrightarrow> mapE f xs = Inr (map g xs)"
  by (induction xs) simp_all

lemma mapE_Inl:
  "x \<in> set xs \<Longrightarrow> (\<And>y. y \<in> set xs \<Longrightarrow> f y = Inl e \<or> (\<exists>z. f y = Inr z)) \<Longrightarrow> f x = Inl e
     \<Longrightarrow> mapE f xs = Inl e"
proof (induction xs)
  case Nil
  then show ?case by simp
next
  case (Cons a xs)
  show ?case
  proof (cases "f a")
    case (Inl e')
    with Cons.prems(2) [of a] show ?thesis by auto
  next
    case (Inr z)
    with Cons.prems(3) have "x \<noteq> a" by auto
    with Cons.prems(1) have "x \<in> set xs" by simp
    with Cons have "mapE f xs = Inl e" by simp
    with Inr show ?thesis by simp
  qed
qed

subsection \<open>When the merge returns and what it returns\<close>

lemma savedUrlEntry_ok:
  "ti_saved s \<and> savedState s \<noteq> None \<Longrightarrow> savedUrlEntry s = Inr (s_url (the (savedState s)), s)"
  by (auto simp: savedUrlEntry_def safeSavedState_def)

lemma savedUrlEntry_bad:
  "\<not> ti_saved s \<or> savedState s = None \<Longrightarrow> savedUrlEntry s = Inl UnexpectedSavedStateAccess"
  by (auto simp: savedUrlEntry_def safeSavedState_def)

lemma savedUrlEntry_cases:
  "savedUrlEntry s = Inl UnexpectedSavedStateAccess \<or> (\<exists>z. savedUrlEntry s = Inr z)"
  by (auto simp: savedUrlEntry_def safeSavedState_def split: option.splits)

lemma merge_ok:
  assumes "\<forall>s\<in>set S. ti_saved s \<and> savedState s \<noteq> None"
  shows "mergeSavedOpenTabs S Op =
           Inr (map (mergeOpenItem (map_of (rev (map (\<lambda>s. (s_url (the (savedState s)), s)) S)))) Op
                @ filter (notOpenSaved (set (map tabUrl Op))) S)"
proof -
  have "mapE savedUrlEntry S = Inr (map (\<lambda>s. (s_url (the (savedState s)), s)) S)"
    using assms by (intro mapE_Inr_map savedUrlEntry_ok) simp
  then show ?thesis by (simp add: mergeSavedOpenTabs_def)
qed

lemma merge_bad:
  assumes "s \<in> set S" "\<not> ti_saved s \<or> savedState s = None"
  shows "mergeSavedOpenTabs S Op = Inl UnexpectedSavedStateAccess"
proof -
  have "mapE savedUrlEntry S = Inl UnexpectedSavedStateAccess"
    using assms(1) savedUrlEntry_cases savedUrlEntry_bad [OF assms(2)] by (rule mapE_Inl)
  then show ?thesis by (simp add: mergeSavedOpenTabs_def)
qed

lemma savedUrlMap_Some:
  "map_of (rev (map (\<lambda>s. (s_url (the (savedState s)), s)) S)) u = Some si
     \<Longrightarrow> si \<in> set S \<and> s_url (the (savedState si)) = u"
  by (auto dest!: map_of_SomeD)

lemma savedUrlMap_None:
  "map_of (rev (map (\<lambda>s. (s_url (the (savedState s)), s)) S)) u = None
     \<longleftrightarrow> u \<notin> (\<lambda>s. s_url (the (savedState s))) ` set S"
  by (simp add: map_of_eq_None_iff image_image)

lemma mergeOpenItem_open:
  "ti_open (mergeOpenItem m t) = ti_open t \<and> openState (mergeOpenItem m t) = openState t"
  by (simp add: mergeOpenItem_def split: option.splits)

lemma tabUrl_mergeOpenItem:
  "ti_open t \<Longrightarrow> openState t \<noteq> None \<Longrightarrow> tabUrl (mergeOpenItem m t) = tabUrl t"
  by (auto simp: mergeOpenItem_def tabUrl_def split: option.splits)

lemma notOpenSaved_closed:
  "savedState s \<noteq> None \<Longrightarrow> \<not> ti_open s \<Longrightarrow> notOpenSaved U s = (tabUrl s \<notin> U)"
  by (auto simp: notOpenSaved_def tabUrl_def split: option.splits)

lemma tabUrl_closed:
  "savedState s \<noteq> None \<Longrightarrow> \<not> ti_open s \<Longrightarrow> tabUrl s = s_url (the (savedState s))"
  by (auto simp: tabUrl_def split: option.splits)

lemma tabUrl_open:
  "ti_open t \<Longrightarrow> openState t \<noteq> None \<Longrightarrow> tabUrl t = o_url (the (openState t))"
  by (auto simp: tabUrl_def split: option.splits)

lemma mergeOpenItem_hit:
  assumes "openState t = Some os" "m (o_url os) = Some si"
  shows "mergeOpenItem m t = t\<lparr>ti_saved := True, savedState := savedState si\<rparr>"
  using assms by (simp add: mergeOpenItem_def)

lemma mergeOpenItem_miss:
  assumes "openState t = Some os" "m (o_url os) = None"
  shows "mergeOpenItem m t = t"
  using assms by (simp add: mergeOpenItem_def)

lemma distinct_map_filter_one:
  "distinct (map f xs) \<Longrightarrow> u \<in> f ` set xs \<Longrightarrow> length (filter (\<lambda>t. f t = u) xs) = 1"
proof (induction xs)
  case Nil
  then show ?case by simp
next
  case (Cons x xs)
  show ?case
  proof (cases "f x = u")
    case True
    with Cons.prems(1) have "u \<notin> f ` set xs" by auto
    then have "filter (\<lambda>t. f t = u) xs = []"
      unfolding filter_empty_conv by blast
    with True show ?thesis by simp
  next
    case False
    with Cons show ?thesis by auto
  qed
qed

lemma merge_scenario:
  "mergeSavedOpenTabs savedAB openBC =
     Inr [(makeOpenTabItem tabB)\<lparr>ti_saved := True, savedState := Some (makeSavedTabState bmB)\<rparr>,
          makeOpenTabItem tabC, makeBookmarkedTabItem bmA]"
  by (simp add: mergeSavedOpenTabs_def savedUrlEntry_def safeSavedState_def mergeOpenItem_def
      notOpenSaved_def tabUrl_def ex_defs)

subsection \<open>Merge identity\<close>

text \<open>
  C1. Let \<open>S\<close> be a list of saved items that are not open (saved, carrying a
  saved state, \<open>open = false\<close>) and \<open>Op\<close> a list of open items carrying their open
  state. Then \<open>mergeSavedOpenTabs\<close> returns a list of exactly
  \<open>|Op| + |{s in S : s.url not in Op.urls}|\<close> items; every URL of \<open>Op\<close> is on an
  item of the result with \<open>open = true\<close>; every saved URL that is not open is on a closed,
  saved item of the result; and a URL present in both lists is carried only by merged
  items (open, with the open state, saved, with a saved state of that URL), as many of them
  as \<open>Op\<close> has items with that URL: exactly one when the URLs of \<open>Op\<close> are pairwise
  distinct. No disjointness of the two lists is needed.
\<close>

theorem C1_merge_identity:
  assumes S: "\<forall>s\<in>set S. ti_saved s \<and> savedState s \<noteq> None \<and> \<not> ti_open s"
      and Op: "\<forall>t\<in>set Op. ti_open t \<and> openState t \<noteq> None"
  shows "\<exists>r. mergeSavedOpenTabs S Op = Inr r
           \<and> length r = length Op + length (filter (\<lambda>s. tabUrl s \<notin> tabUrl ` set Op) S)
           \<and> (\<forall>t\<in>set Op. \<exists>x\<in>set r. tabUrl x = tabUrl t \<and> ti_open x)
           \<and> (\<forall>s\<in>set S. tabUrl s \<notin> tabUrl ` set Op \<longrightarrow>
                  (\<exists>x\<in>set r. tabUrl x = tabUrl s \<and> ti_saved x \<and> \<not> ti_open x))
           \<and> (\<forall>u\<in>tabUrl ` set S \<inter> tabUrl ` set Op.
                  (\<forall>x\<in>set r. tabUrl x = u \<longrightarrow>
                     ti_open x \<and> openState x \<noteq> None \<and> ti_saved x \<and>
                     (\<exists>ss. savedState x = Some ss \<and> s_url ss = u))
                  \<and> length (filter (\<lambda>x. tabUrl x = u) r) = length (filter (\<lambda>t. tabUrl t = u) Op)
                  \<and> (distinct (map tabUrl Op) \<longrightarrow> length (filter (\<lambda>x. tabUrl x = u) r) = 1))"
proof -
  define m where "m = map_of (rev (map (\<lambda>s. (s_url (the (savedState s)), s)) S))"
  define U where "U = set (map tabUrl Op)"
  define r where "r = map (mergeOpenItem m) Op @ filter (notOpenSaved U) S"
  have run: "mergeSavedOpenTabs S Op = Inr r"
    using S by (simp add: merge_ok m_def U_def r_def)
  have closed: "filter (notOpenSaved U) S = filter (\<lambda>s. tabUrl s \<notin> tabUrl ` set Op) S"
    using S by (intro filter_cong refl) (simp add: notOpenSaved_closed U_def)
  have url_keep: "tabUrl (mergeOpenItem m t) = tabUrl t" if "t \<in> set Op" for t
    using that Op by (simp add: tabUrl_mergeOpenItem)
  have len: "length r = length Op + length (filter (\<lambda>s. tabUrl s \<notin> tabUrl ` set Op) S)"
    by (simp add: r_def closed)
  have opens: "\<forall>t\<in>set Op. \<exists>x\<in>set r. tabUrl x = tabUrl t \<and> ti_open x"
  proof
    fix t assume t: "t \<in> set Op"
    then have "mergeOpenItem m t \<in> set r" by (simp add: r_def)
    moreover have "ti_open (mergeOpenItem m t)" using t Op by (simp add: mergeOpenItem_open)
    ultimately show "\<exists>x\<in>set r. tabUrl x = tabUrl t \<and> ti_open x"
      using url_keep [OF t] by blast
  qed
  have closeds: "\<forall>s\<in>set S. tabUrl s \<notin> tabUrl ` set Op \<longrightarrow>
                  (\<exists>x\<in>set r. tabUrl x = tabUrl s \<and> ti_saved x \<and> \<not> ti_open x)"
  proof (intro ballI impI)
    fix s assume s: "s \<in> set S" and "tabUrl s \<notin> tabUrl ` set Op"
    then have "s \<in> set r" by (simp add: r_def closed)
    then show "\<exists>x\<in>set r. tabUrl x = tabUrl s \<and> ti_saved x \<and> \<not> ti_open x"
      using s S by blast
  qed
  have both: "(\<forall>x\<in>set r. tabUrl x = u \<longrightarrow>
                     ti_open x \<and> openState x \<noteq> None \<and> ti_saved x \<and>
                     (\<exists>ss. savedState x = Some ss \<and> s_url ss = u))
                  \<and> length (filter (\<lambda>x. tabUrl x = u) r) = length (filter (\<lambda>t. tabUrl t = u) Op)
                  \<and> (distinct (map tabUrl Op) \<longrightarrow> length (filter (\<lambda>x. tabUrl x = u) r) = 1)"
    if u: "u \<in> tabUrl ` set S \<inter> tabUrl ` set Op" for u
  proof -
    from u obtain s0 where s0: "s0 \<in> set S" "tabUrl s0 = u" by auto
    with S have "s_url (the (savedState s0)) = u" by (simp add: tabUrl_closed)
    with s0 have "u \<in> (\<lambda>s. s_url (the (savedState s))) ` set S" by force
    then have "m u \<noteq> None" unfolding m_def savedUrlMap_None by simp
    then obtain si where si: "m u = Some si" by blast
    then have si_in: "si \<in> set S" and si_url: "s_url (the (savedState si)) = u"
      unfolding m_def by (auto dest: savedUrlMap_Some)
    from si_in S obtain ss where ss: "savedState si = Some ss" by auto
    have no_closed: "filter (\<lambda>x. tabUrl x = u) (filter (notOpenSaved U) S) = []"
      using u by (auto simp: closed filter_empty_conv)
    have merged: "ti_open x \<and> openState x \<noteq> None \<and> ti_saved x \<and>
                     (\<exists>ss. savedState x = Some ss \<and> s_url ss = u)"
      if x: "x \<in> set r" "tabUrl x = u" for x
    proof -
      from x no_closed have "x \<in> set (map (mergeOpenItem m) Op)"
        by (auto simp: r_def filter_empty_conv)
      then obtain t where t: "t \<in> set Op" "x = mergeOpenItem m t" by auto
      with x url_keep have tu: "tabUrl t = u" by simp
      from t Op obtain os where os: "openState t = Some os" "ti_open t" by auto
      with tu have "o_url os = u" by (simp add: tabUrl_def)
      with os si have "x = t\<lparr>ti_saved := True, savedState := savedState si\<rparr>"
        using t(2) by (simp add: mergeOpenItem_hit)
      with os ss si_url show ?thesis by simp
    qed
    have "filter (\<lambda>t. tabUrl (mergeOpenItem m t) = u) Op = filter (\<lambda>t. tabUrl t = u) Op"
      using url_keep by (intro filter_cong refl) simp
    then have "filter (\<lambda>x. tabUrl x = u) (map (mergeOpenItem m) Op)
                 = map (mergeOpenItem m) (filter (\<lambda>t. tabUrl t = u) Op)"
      by (simp add: filter_map comp_def)
    moreover have "filter (\<lambda>x. tabUrl x = u) r
                 = filter (\<lambda>x. tabUrl x = u) (map (mergeOpenItem m) Op)
                   @ filter (\<lambda>x. tabUrl x = u) (filter (notOpenSaved U) S)"
      by (simp only: r_def filter_append)
    ultimately have "filter (\<lambda>x. tabUrl x = u) r
                 = map (mergeOpenItem m) (filter (\<lambda>t. tabUrl t = u) Op)"
      by (simp only: no_closed append_Nil2)
    then have cnt: "length (filter (\<lambda>x. tabUrl x = u) r) = length (filter (\<lambda>t. tabUrl t = u) Op)"
      by simp
    have once: "length (filter (\<lambda>t. tabUrl t = u) Op) = 1" if d: "distinct (map tabUrl Op)"
      using d u by (simp add: distinct_map_filter_one)
    from merged cnt once show ?thesis by auto
  qed
  from run len opens closeds both show ?thesis by blast
qed

theorem C1_merge_identity_witness:
  "list_all (\<lambda>s. ti_saved s \<and> savedState s \<noteq> None \<and> \<not> ti_open s) savedAB
   \<and> list_all (\<lambda>t. ti_open t \<and> openState t \<noteq> None) openBC
   \<and> ''a.com'' \<in> tabUrl ` set savedAB \<and> ''a.com'' \<notin> tabUrl ` set openBC
   \<and> ''b.com'' \<in> tabUrl ` set savedAB \<inter> tabUrl ` set openBC
   \<and> distinct (map tabUrl openBC)
   \<and> (\<exists>r. mergeSavedOpenTabs savedAB openBC = Inr r \<and> length r = 3
         \<and> (\<forall>t\<in>set openBC. \<exists>x\<in>set r. tabUrl x = tabUrl t \<and> ti_open x)
         \<and> (\<exists>x\<in>set r. tabUrl x = ''a.com'' \<and> ti_saved x \<and> \<not> ti_open x)
         \<and> (\<forall>x\<in>set r. tabUrl x = ''b.com'' \<longrightarrow>
                     ti_open x \<and> openState x \<noteq> None \<and> ti_saved x \<and>
                     (\<exists>ss. savedState x = Some ss \<and> s_url ss = ''b.com''))
         \<and> length (filter (\<lambda>x. tabUrl x = ''b.com'') r) = 1)"
proof -
  have s: "\<forall>s\<in>set savedAB. ti_saved s \<and> savedState s \<noteq> None \<and> \<not> ti_open s"
    by (simp add: ex_defs)
  have t: "\<forall>t\<in>set openBC. ti_open t \<and> openState t \<noteq> None"
    by (simp add: ex_defs)
  have a: "''a.com'' \<in> tabUrl ` set savedAB" "''a.com'' \<notin> tabUrl ` set openBC"
    and b: "''b.com'' \<in> tabUrl ` set savedAB \<inter> tabUrl ` set openBC"
    and d: "distinct (map tabUrl openBC)"
    and n: "length (filter (\<lambda>s. tabUrl s \<notin> tabUrl ` set openBC) savedAB) = 1"
    by (simp_all add: ex_defs tabUrl_def)
  from C1_merge_identity [OF s t] obtain r where r: "mergeSavedOpenTabs savedAB openBC = Inr r"
    "length r = length openBC + length (filter (\<lambda>s. tabUrl s \<notin> tabUrl ` set openBC) savedAB)"
    "\<forall>t\<in>set openBC. \<exists>x\<in>set r. tabUrl x = tabUrl t \<and> ti_open x"
    "\<forall>s\<in>set savedAB. tabUrl s \<notin> tabUrl ` set openBC \<longrightarrow>
                  (\<exists>x\<in>set r. tabUrl x = tabUrl s \<and> ti_saved x \<and> \<not> ti_open x)"
    "\<forall>u\<in>tabUrl ` set savedAB \<inter> tabUrl ` set openBC.
                  (\<forall>x\<in>set r. tabUrl x = u \<longrightarrow>
                     ti_open x \<and> openState x \<noteq> None \<and> ti_saved x \<and>
                     (\<exists>ss. savedState x = Some ss \<and> s_url ss = u))
                  \<and> length (filter (\<lambda>x. tabUrl x = u) r) = length (filter (\<lambda>t. tabUrl t = u) openBC)
                  \<and> (distinct (map tabUrl openBC) \<longrightarrow> length (filter (\<lambda>x. tabUrl x = u) r) = 1)"
    by blast
  from r(2) n have len: "length r = 3" by (simp add: openBC_def)
  from r(4) a obtain x where "x \<in> set r" "tabUrl x = ''a.com''" "ti_saved x" "\<not> ti_open x"
    by force
  then have ax: "\<exists>x\<in>set r. tabUrl x = ''a.com'' \<and> ti_saved x \<and> \<not> ti_open x" by blast
  from r(5) b d have bx: "(\<forall>x\<in>set r. tabUrl x = ''b.com'' \<longrightarrow>
                     ti_open x \<and> openState x \<noteq> None \<and> ti_saved x \<and>
                     (\<exists>ss. savedState x = Some ss \<and> s_url ss = ''b.com''))
         \<and> length (filter (\<lambda>x. tabUrl x = ''b.com'') r) = 1"
    by blast
  from s t a b d r(1) len r(3) ax bx show ?thesis unfolding list_all_iff by blast
qed

text \<open>
  C1, when an element of \<open>S\<close> is open. An item that is saved on \<open>a.com\<close>, carries
  its saved state and is open on \<open>c.com\<close> comes back unchanged from the merge with no open
  items: its saved URL, which no open item carries, is on no closed item of the result.
\<close>

theorem C1_literal_counterexample:
  "ti_saved savedOpenAC \<and> savedState savedOpenAC = Some (makeSavedTabState bmA)
   \<and> s_url (makeSavedTabState bmA) = ''a.com''
   \<and> mergeSavedOpenTabs [savedOpenAC] [] = Inr [savedOpenAC]
   \<and> ti_open savedOpenAC \<and> tabUrl savedOpenAC = ''c.com''"
  by (simp add: mergeSavedOpenTabs_def savedUrlEntry_def safeSavedState_def mergeOpenItem_def
      notOpenSaved_def tabUrl_def ex_defs)

subsection \<open>Merge order\<close>

text \<open>
  C2. For saved items \<open>S\<close> and open items \<open>Op\<close>, each carrying its state, the result
  of \<open>mergeSavedOpenTabs\<close> is a prefix of \<open>|Op|\<close> items followed by the saved items of
  \<open>S\<close> whose URL is not among the URLs of \<open>Op\<close>, in their order in \<open>S\<close>. The
  \<open>i\<close>-th item of the prefix is derived from the \<open>i\<close>-th item of \<open>Op\<close>: it is open,
  has the same open state and URL, and is either that item itself or that item enriched
  with the saved state of an item of \<open>S\<close> with the same URL. The URL of a saved item
  is the URL of its saved state.
\<close>

theorem C2_merge_order:
  assumes S: "\<forall>s\<in>set S. ti_saved s \<and> savedState s \<noteq> None"
      and Op: "\<forall>t\<in>set Op. ti_open t \<and> openState t \<noteq> None"
  shows "\<exists>pre. mergeSavedOpenTabs S Op =
                 Inr (pre @ filter (\<lambda>s. s_url (the (savedState s)) \<notin> tabUrl ` set Op) S)
           \<and> length pre = length Op
           \<and> (\<forall>i<length Op.
                  ti_open (pre ! i) \<and> openState (pre ! i) = openState (Op ! i)
                  \<and> tabUrl (pre ! i) = tabUrl (Op ! i)
                  \<and> (pre ! i = Op ! i
                     \<or> (\<exists>s\<in>set S. s_url (the (savedState s)) = tabUrl (Op ! i)
                           \<and> pre ! i = (Op ! i)\<lparr>ti_saved := True, savedState := savedState s\<rparr>)))"
proof -
  define m where "m = map_of (rev (map (\<lambda>s. (s_url (the (savedState s)), s)) S))"
  define pre where "pre = map (mergeOpenItem m) Op"
  have "filter (notOpenSaved (set (map tabUrl Op))) S
          = filter (\<lambda>s. s_url (the (savedState s)) \<notin> tabUrl ` set Op) S"
    using S by (intro filter_cong refl) (auto simp: notOpenSaved_def)
  then have run: "mergeSavedOpenTabs S Op =
                 Inr (pre @ filter (\<lambda>s. s_url (the (savedState s)) \<notin> tabUrl ` set Op) S)"
    using S by (simp add: merge_ok m_def pre_def)
  have item: "ti_open (pre ! i) \<and> openState (pre ! i) = openState (Op ! i)
                  \<and> tabUrl (pre ! i) = tabUrl (Op ! i)
                  \<and> (pre ! i = Op ! i
                     \<or> (\<exists>s\<in>set S. s_url (the (savedState s)) = tabUrl (Op ! i)
                           \<and> pre ! i = (Op ! i)\<lparr>ti_saved := True, savedState := savedState s\<rparr>))"
    if i: "i < length Op" for i
  proof -
    from i have t: "Op ! i \<in> set Op" and p: "pre ! i = mergeOpenItem m (Op ! i)"
      by (simp_all add: pre_def)
    from t Op obtain os where os: "openState (Op ! i) = Some os" "ti_open (Op ! i)" by auto
    then have u: "tabUrl (Op ! i) = o_url os" by (simp add: tabUrl_def)
    have "pre ! i = Op ! i
            \<or> (\<exists>s\<in>set S. s_url (the (savedState s)) = tabUrl (Op ! i)
                  \<and> pre ! i = (Op ! i)\<lparr>ti_saved := True, savedState := savedState s\<rparr>)"
    proof (cases "m (o_url os)")
      case None
      with os p show ?thesis by (simp add: mergeOpenItem_miss)
    next
      case (Some si)
      then have "si \<in> set S \<and> s_url (the (savedState si)) = o_url os"
        unfolding m_def by (rule savedUrlMap_Some)
      moreover from Some os p have "pre ! i = (Op ! i)\<lparr>ti_saved := True, savedState := savedState si\<rparr>"
        by (simp add: mergeOpenItem_hit)
      ultimately show ?thesis using u by auto
    qed
    with t Op p os show ?thesis
      by (simp add: mergeOpenItem_open tabUrl_mergeOpenItem)
  qed
  from run item show ?thesis by (intro exI [of _ pre]) (simp add: pre_def)
qed

theorem C2_merge_order_witness:
  "list_all (\<lambda>s. ti_saved s \<and> savedState s \<noteq> None) savedAB
   \<and> list_all (\<lambda>t. ti_open t \<and> openState t \<noteq> None) openBC
   \<and> (\<exists>pre. mergeSavedOpenTabs savedAB openBC =
                 Inr (pre @ filter (\<lambda>s. s_url (the (savedState s)) \<notin> tabUrl ` set openBC) savedAB)
           \<and> length pre = length openBC
           \<and> (\<forall>i<length openBC.
                  ti_open (pre ! i) \<and> openState (pre ! i) = openState (openBC ! i)
                  \<and> tabUrl (pre ! i) = tabUrl (openBC ! i)
                  \<and> (pre ! i = openBC ! i
                     \<or> (\<exists>s\<in>set savedAB. s_url (the (savedState s)) = tabUrl (openBC ! i)
                           \<and> pre ! i = (openBC ! i)\<lparr>ti_saved := True, savedState := savedState s\<rparr>))))"
proof -
  have s: "\<forall>s\<in>set savedAB. ti_saved s \<and> savedState s \<noteq> None"
    by (simp add: ex_defs)
  have t: "\<forall>t\<in>set openBC. ti_open t \<and> openState t \<noteq> None"
    by (simp add: ex_defs)
  from s t C2_merge_order [OF s t] show ?thesis unfolding list_all_iff by blast
qed

subsection \<open>The safe accessor in the merge\<close>

text \<open>
  C10. \<open>mergeSavedOpenTabs\<close> reads the safe accessor of the saved state on every element
  of \<open>savedItems\<close>: if some element is not saved or has no saved state the merge raises
  the accessor's error, and if every element is saved with a saved state the merge returns
  a list.
\<close>

theorem C10_merge_safe_accessor:
  "((\<exists>s\<in>set S. \<not> ti_saved s \<or> savedState s = None) \<longrightarrow>
       mergeSavedOpenTabs S Op = Inl UnexpectedSavedStateAccess)
   \<and> ((\<forall>s\<in>set S. ti_saved s \<and> savedState s \<noteq> None) \<longrightarrow>
       (\<exists>r. mergeSavedOpenTabs S Op = Inr r))"
  using merge_bad [of _ S Op] merge_ok [of S Op] by blast

theorem C10_merge_safe_accessor_witness:
  "(\<exists>s\<in>set [makeOpenTabItem tabC]. \<not> ti_saved s \<or> savedState s = None)
   \<and> mergeSavedOpenTabs [makeOpenTabItem tabC] openBC = Inl UnexpectedSavedStateAccess
   \<and> list_all (\<lambda>s. ti_saved s \<and> savedState s \<noteq> None) savedAB
   \<and> (\<exists>r. mergeSavedOpenTabs savedAB openBC = Inr r)"
proof -
  have bad: "\<exists>s\<in>set [makeOpenTabItem tabC]. \<not> ti_saved s \<or> savedState s = None"
    by (simp add: ex_defs)
  have good: "\<forall>s\<in>set savedAB. ti_saved s \<and> savedState s \<noteq> None"
    by (simp add: ex_defs)
  from bad good C10_merge_safe_accessor [of "[makeOpenTabItem tabC]" openBC]
    C10_merge_safe_accessor [of savedAB openBC]
  show ?thesis unfolding list_all_iff by blast
qed

section \<open>Properties of the lifecycle operations\<close>

subsection \<open>Closing a window\<close>

lemma mapE_cleanOpenState:
  assumes "\<forall>t\<in>set xs. ti_open t \<longrightarrow> openState t \<noteq> None"
  shows "mapE cleanOpenState xs = Inr (map stripOpenTabId xs)"
  using assms by (intro mapE_Inr_map) (auto simp: cleanOpenState_def stripOpenTabId_def split: option.splits)

lemma removeOpenWindowState_revert:
  "removeOpenWindowState w False =
     Inr (w\<lparr>tw_open := False, openWindowId := - 1, windowType := '''', tw_width := 0,
            tw_height := 0, tabItems := map resetSavedItem (filter ti_saved (tabItems w)),
            snapshot := True\<rparr>)"
  by (simp add: removeOpenWindowState_def)

lemma removeOpenWindowState_snapshot:
  assumes "\<forall>t\<in>set (tabItems w). ti_open t \<longrightarrow> openState t \<noteq> None"
  shows "removeOpenWindowState w True =
     Inr (w\<lparr>tw_open := False, openWindowId := - 1, windowType := '''', tw_width := 0,
            tw_height := 0, tabItems := map stripOpenTabId (tabItems w),
            snapshot := True\<rparr>)"
  using mapE_cleanOpenState [OF assms] by (simp add: removeOpenWindowState_def)

lemma stripOpenTabId_keeps:
  "ti_saved (stripOpenTabId t) = ti_saved t" "savedState (stripOpenTabId t) = savedState t"
  "ti_open (stripOpenTabId t) = ti_open t" "tabUrl (stripOpenTabId t) = tabUrl t"
  "tabActive (stripOpenTabId t) = tabActive t"
  "(openState (stripOpenTabId t) = None) = (openState t = None)"
  by (auto simp: stripOpenTabId_def tabUrl_def tabActive_def split: option.splits)

text \<open>
  C3. The comments of the source reserve the snapshot mark for the variant called with
  \<open>snapshot = true\<close>, but the flag is set after the branch on \<open>snapshot\<close>, so the
  variant called with \<open>snapshot = false\<close> marks the window too: for every window it
  returns the saved items in saved-only form, the open-window fields reset, and
  \<open>snapshot = true\<close>.
\<close>

theorem C3_revert_marks_snapshot:
  "(\<exists>w'. removeOpenWindowState w False = Inr w' \<and> snapshot w'
        \<and> tabItems w' = map resetSavedItem (filter ti_saved (tabItems w))
        \<and> \<not> tw_open w' \<and> openWindowId w' = - 1 \<and> windowType w' = '''' \<and> tw_width w' = 0
        \<and> tw_height w' = 0)
   \<and> removeOpenWindowState winBCA False =
       Inr \<lparr>tw_saved = True, savedTitle = ''W'', savedFolderId = ''f1'',
            tw_open = False, openWindowId = - 1, windowType = '''',
            tw_width = 0, tw_height = 0,
            tabItems = [makeBookmarkedTabItem bmB, makeBookmarkedTabItem bmA],
            snapshot = True, chromeSessionId = None, expanded = None\<rparr>"
proof -
  have "removeOpenWindowState winBCA False =
       Inr \<lparr>tw_saved = True, savedTitle = ''W'', savedFolderId = ''f1'',
            tw_open = False, openWindowId = - 1, windowType = '''',
            tw_width = 0, tw_height = 0,
            tabItems = [makeBookmarkedTabItem bmB, makeBookmarkedTabItem bmA],
            snapshot = True, chromeSessionId = None, expanded = None\<rparr>"
    by (simp add: removeOpenWindowState_def winBCA_def resetSavedItem_def ex_defs)
  then show ?thesis by (simp add: removeOpenWindowState_revert)
qed

text \<open>With \<open>snapshot = true\<close> the items keep their order, their saved state, their URL
  and their active flag (\<open>stripOpenTabId_keeps\<close>); only the live tab id is reset.\<close>

lemma removeOpenWindowState_snapshot_example:
  "removeOpenWindowState winBCA True =
     Inr (winBCA\<lparr>tw_open := False, openWindowId := - 1, windowType := '''', tw_width := 0,
            tw_height := 0,
            tabItems := [(makeOpenTabItem (tabB\<lparr>tab_id := - 1\<rparr>))\<lparr>ti_saved := True,
                            savedState := Some (makeSavedTabState bmB)\<rparr>,
                         makeOpenTabItem (tabC\<lparr>tab_id := - 1\<rparr>), makeBookmarkedTabItem bmA],
            snapshot := True\<rparr>)"
  by (simp add: removeOpenWindowState_def cleanOpenState_def ex2_defs ex_defs)

subsection \<open>The identifier of a window\<close>

text \<open>
  C7. The identifier of a window is \<open>_saved\<close> followed by the saved folder
  id when the window is saved, else \<open>_open\<close> followed by the open window id in decimal.
  For a saved window and either value of the snapshot flag, whatever
  \<open>removeOpenWindowState\<close> returns has the identifier of the input, and it does return
  when every open item carries an open state.
\<close>

theorem C7_window_id:
  "tabWindowId w = (if tw_saved w then ''_saved'' @ savedFolderId w
                    else ''_open'' @ showInt (openWindowId w))
   \<and> (tw_saved w \<longrightarrow>
        (\<forall>w'. removeOpenWindowState w s = Inr w' \<longrightarrow> tabWindowId w' = tabWindowId w)
        \<and> ((\<forall>t\<in>set (tabItems w). ti_open t \<longrightarrow> openState t \<noteq> None) \<longrightarrow>
             (\<exists>w'. removeOpenWindowState w s = Inr w')))"
proof -
  have "tabWindowId w' = tabWindowId w" if "tw_saved w" "removeOpenWindowState w s = Inr w'" for w'
    using that by (auto simp: removeOpenWindowState_def tabWindowId_def split: sum.splits if_splits)
  moreover have "\<exists>w'. removeOpenWindowState w s = Inr w'"
    if "\<forall>t\<in>set (tabItems w). ti_open t \<longrightarrow> openState t \<noteq> None"
    using removeOpenWindowState_snapshot [OF that] removeOpenWindowState_revert [of w]
    by (cases s) auto
  ultimately show ?thesis by (auto simp: tabWindowId_def)
qed

theorem C7_window_id_witness:
  "tw_saved winBCA \<and> list_all (\<lambda>t. ti_open t \<longrightarrow> openState t \<noteq> None) (tabItems winBCA)
   \<and> tabWindowId winBCA = ''_savedf1''
   \<and> (\<exists>w'. removeOpenWindowState winBCA True = Inr w' \<and> tabWindowId w' = ''_savedf1'')"
proof -
  have s: "tw_saved winBCA" and wf: "\<forall>t\<in>set (tabItems winBCA). ti_open t \<longrightarrow> openState t \<noteq> None"
    and f: "savedFolderId winBCA = ''f1''"
    by (simp_all add: winBCA_def ex_defs)
  from C7_window_id [of winBCA True] s wf f show ?thesis unfolding list_all_iff by auto
qed

text \<open>
  C7, the prefix. The getter builds the identifier with the prefix \<open>_saved\<close>, not
  \<open>saved:\<close>: the saved window with folder id \<open>f1\<close> has the identifier
  \<open>_savedf1\<close>.
\<close>

theorem C7_prefix_counterexample:
  "tw_saved winBCA \<and> savedFolderId winBCA = ''f1'' \<and> tabWindowId winBCA = ''_savedf1''
   \<and> tabWindowId winBCA \<noteq> ''saved:'' @ savedFolderId winBCA"
  by (simp add: winBCA_def tabWindowId_def)

lemma tabWindowId_open_example:
  "tabWindowId (winBCA\<lparr>tw_saved := False\<rparr>) = ''_open7''"
  by (simp add: winBCA_def tabWindowId_def showInt_def showNat.simps)

lemma showInt_examples: "showInt 1234 = ''1234''" "showInt (- 1) = ''-1''" "showInt 0 = ''0''"
  by (simp_all add: showInt_def showNat.simps)

subsection \<open>Closing with a snapshot and reopening\<close>

lemma filter_open_mergeOpenItem:
  assumes "\<forall>t\<in>set Op. ti_open t"
  shows "filter ti_open (map (mergeOpenItem m) Op) = map (mergeOpenItem m) Op"
  using assms by (induction Op) (simp_all add: mergeOpenItem_open)

lemma filter_open_closed:
  assumes "\<forall>s\<in>set S. \<not> ti_open s"
  shows "filter ti_open (filter P S) = []"
  using assms by (induction S) simp_all

lemma tabActive_mergeOpenItem: "tabActive (mergeOpenItem m t) = tabActive t"
  by (simp add: tabActive_def mergeOpenItem_open)

lemma makeOpenTabItem_facts:
  "ti_open (makeOpenTabItem tab)" "openState (makeOpenTabItem tab) \<noteq> None"
  "tabUrl (makeOpenTabItem tab) = o_url (makeOpenTabState tab)"
  "tabActive (makeOpenTabItem tab) = tab_active tab"
  by (simp_all add: makeOpenTabItem_def tabUrl_def tabActive_def makeOpenTabState_def Let_def)

lemma resetSavedItem_facts:
  "\<not> ti_open (resetSavedItem t)" "ti_saved (resetSavedItem t) = ti_saved t"
  "savedState (resetSavedItem t) = savedState t" "openState (resetSavedItem t) = None"
  by (simp_all add: resetSavedItem_def)

lemma mergeOpenTabs_open_items:
  assumes wf: "\<forall>t\<in>set items. ti_saved t \<longrightarrow> savedState t \<noteq> None"
  shows "\<exists>r. mergeOpenTabs items tabs = Inr r
           \<and> map tabUrl (filter ti_open r) = map (\<lambda>tab. o_url (makeOpenTabState tab)) tabs
           \<and> map tabActive (filter ti_open r) = map tab_active tabs"
proof -
  define S where "S = map resetSavedItem (filter ti_saved items)"
  define Op where "Op = map makeOpenTabItem tabs"
  define m where "m = map_of (rev (map (\<lambda>s. (s_url (the (savedState s)), s)) S))"
  define r where "r = map (mergeOpenItem m) Op @ filter (notOpenSaved (set (map tabUrl Op))) S"
  have S: "\<forall>s\<in>set S. ti_saved s \<and> savedState s \<noteq> None"
    using wf by (auto simp: S_def resetSavedItem_facts)
  have Sc: "\<forall>s\<in>set S. \<not> ti_open s" by (auto simp: S_def resetSavedItem_facts)
  have Op: "\<forall>t\<in>set Op. ti_open t" "\<forall>t\<in>set Op. ti_open t \<and> openState t \<noteq> None"
    by (auto simp: Op_def makeOpenTabItem_def)
  have run: "mergeOpenTabs items tabs = Inr r"
    using merge_ok [OF S, of Op] by (simp add: mergeOpenTabs_def S_def Op_def m_def r_def)
  have opens: "filter ti_open r = map (mergeOpenItem m) Op"
    unfolding r_def filter_append filter_open_mergeOpenItem [OF Op(1)] filter_open_closed [OF Sc]
    by (rule append_Nil2)
  have "map tabUrl (map (mergeOpenItem m) Op) = map tabUrl Op"
    using Op(2) by (simp add: tabUrl_mergeOpenItem)
  then have urls: "map tabUrl (filter ti_open r) = map (\<lambda>tab. o_url (makeOpenTabState tab)) tabs"
    by (simp add: opens Op_def makeOpenTabItem_facts comp_def)
  have acts: "map tabActive (filter ti_open r) = map tab_active tabs"
    by (simp add: opens Op_def tabActive_mergeOpenItem makeOpenTabItem_facts comp_def)
  from run urls acts show ?thesis by blast
qed

text \<open>
  C8. Take a window whose items carry their states, close it with a snapshot, and update
  the result from a live window whose tabs have the URLs and active flags of the open items
  of the original, in the same order. Both steps return, and the open items of the final
  window have the URLs of the original open items in the same order, with the same
  active flags at the same positions.
\<close>

theorem C8_close_reopen_roundtrip:
  assumes wf: "\<forall>t\<in>set (tabItems w). (ti_open t \<longrightarrow> openState t \<noteq> None)
                                  \<and> (ti_saved t \<longrightarrow> savedState t \<noteq> None)"
      and tabs: "cw_tabs cw = Some tabs"
      and urls: "map (\<lambda>tab. o_url (makeOpenTabState tab)) tabs = map tabUrl (filter ti_open (tabItems w))"
      and acts: "map tab_active tabs = map tabActive (filter ti_open (tabItems w))"
  shows "\<exists>w1 w2. removeOpenWindowState w True = Inr w1 \<and> updateWindow w1 cw = Inr w2
           \<and> map tabUrl (filter ti_open (tabItems w2)) = map tabUrl (filter ti_open (tabItems w))
           \<and> map tabActive (filter ti_open (tabItems w2))
               = map tabActive (filter ti_open (tabItems w))"
proof -
  define w1 where "w1 = w\<lparr>tw_open := False, openWindowId := - 1, windowType := '''', tw_width := 0,
            tw_height := 0, tabItems := map stripOpenTabId (tabItems w), snapshot := True\<rparr>"
  have close: "removeOpenWindowState w True = Inr w1"
    using wf by (simp add: removeOpenWindowState_snapshot w1_def)
  have "\<forall>t\<in>set (tabItems w1). ti_saved t \<longrightarrow> savedState t \<noteq> None"
    using wf by (auto simp: w1_def stripOpenTabId_keeps)
  from mergeOpenTabs_open_items [OF this, of tabs] obtain r where
    r: "mergeOpenTabs (tabItems w1) tabs = Inr r"
       "map tabUrl (filter ti_open r) = map (\<lambda>tab. o_url (makeOpenTabState tab)) tabs"
       "map tabActive (filter ti_open r) = map tab_active tabs"
    by blast
  define w2 where "w2 = w1\<lparr>tabItems := r, windowType := cw_type cw, tw_open := True,
                           openWindowId := cw_id cw, snapshot := False, chromeSessionId := None\<rparr>"
  have reopen: "updateWindow w1 cw = Inr w2"
    using tabs r(1) by (simp add: updateWindow_def w2_def)
  have "tabItems w2 = r" by (simp add: w2_def)
  with close reopen r(2,3) urls acts show ?thesis by auto
qed

theorem C8_close_reopen_roundtrip_witness:
  "list_all (\<lambda>t. (ti_open t \<longrightarrow> openState t \<noteq> None) \<and> (ti_saved t \<longrightarrow> savedState t \<noteq> None))
      (tabItems winBCA)
   \<and> cw_tabs chromeBC = Some [tabB, tabC]
   \<and> map (\<lambda>tab. o_url (makeOpenTabState tab)) [tabB, tabC] = map tabUrl (filter ti_open (tabItems winBCA))
   \<and> map tab_active [tabB, tabC] = map tabActive (filter ti_open (tabItems winBCA))
   \<and> (\<exists>w1 w2. removeOpenWindowState winBCA True = Inr w1 \<and> updateWindow w1 chromeBC = Inr w2
           \<and> map tabUrl (filter ti_open (tabItems w2)) = [''b.com'', ''c.com'']
           \<and> map tabActive (filter ti_open (tabItems w2)) = [True, False])"
proof -
  have wf: "\<forall>t\<in>set (tabItems winBCA). (ti_open t \<longrightarrow> openState t \<noteq> None)
                                  \<and> (ti_saved t \<longrightarrow> savedState t \<noteq> None)"
    by (simp add: winBCA_def ex_defs)
  have tabs: "cw_tabs chromeBC = Some [tabB, tabC]" by (simp add: chromeBC_def)
  have u: "map tabUrl (filter ti_open (tabItems winBCA)) = [''b.com'', ''c.com'']"
    and a: "map tabActive (filter ti_open (tabItems winBCA)) = [True, False]"
    by (simp_all add: winBCA_def ex_defs tabUrl_def tabActive_def)
  have urls: "map (\<lambda>tab. o_url (makeOpenTabState tab)) [tabB, tabC] = map tabUrl (filter ti_open (tabItems winBCA))"
    unfolding u by (simp add: ex_defs)
  have acts: "map tab_active [tabB, tabC] = map tabActive (filter ti_open (tabItems winBCA))"
    unfolding a by (simp add: ex_defs)
  from C8_close_reopen_roundtrip [OF wf tabs urls acts] wf tabs urls acts u a
  show ?thesis unfolding list_all_iff by simp
qed

subsection \<open>Lookups and splices\<close>

lemma findEntryFrom_None: "findEntryFrom n p xs = None \<longleftrightarrow> (\<forall>x\<in>set xs. \<not> p x)"
  by (induction xs arbitrary: n) auto

lemma findEntryFrom_Some:
  "findEntryFrom n p xs = Some (k, x) \<Longrightarrow>
     n \<le> k \<and> k - n < length xs \<and> xs ! (k - n) = x \<and> p x \<and> (\<forall>j<k - n. \<not> p (xs ! j))"
proof (induction xs arbitrary: n)
  case Nil
  then show ?case by simp
next
  case (Cons a xs)
  show ?case
  proof (cases "p a")
    case True
    with Cons.prems show ?thesis by simp
  next
    case False
    with Cons.prems have "findEntryFrom (Suc n) p xs = Some (k, x)" by simp
    from Cons.IH [OF this] have ih: "Suc n \<le> k" "k - Suc n < length xs" "xs ! (k - Suc n) = x"
      "p x" "\<forall>j<k - Suc n. \<not> p (xs ! j)" by auto
    from ih(1) have kn: "k - n = Suc (k - Suc n)" by arith
    have "\<not> p ((a # xs) ! j)" if "j < k - n" for j
      using that False ih(5) kn by (cases j) auto
    with ih kn show ?thesis by auto
  qed
qed

lemma findEntry_None: "findEntry p xs = None \<longleftrightarrow> (\<forall>x\<in>set xs. \<not> p x)"
  by (simp add: findEntry_def findEntryFrom_None)

lemma findEntry_Some:
  "findEntry p xs = Some (k, x) \<Longrightarrow> k < length xs \<and> xs ! k = x \<and> p x \<and> (\<forall>j<k. \<not> p (xs ! j))"
  using findEntryFrom_Some [of 0 p xs k x] by (simp add: findEntry_def)

lemma splice_replace: "i < length xs \<Longrightarrow> listSplice (int i) (Suc 0) [v] xs = xs[i := v]"
  by (simp add: listSplice_def resolveBegin_def upd_conv_take_nth_drop min_def)

lemma splice_remove:
  "i < length xs \<Longrightarrow> listSplice (int i) (Suc 0) [] xs = take i xs @ drop (Suc i) xs"
  by (simp add: listSplice_def resolveBegin_def min_def)

subsection \<open>Activating a tab\<close>

lemma mapE_tabItemRemoveActive:
  assumes "\<forall>t\<in>set xs. ti_open t \<longrightarrow> openState t \<noteq> None"
  shows "mapE tabItemRemoveActive xs =
           Inr (map (\<lambda>t. if ti_open t
                          then t\<lparr>openState := Some ((the (openState t))\<lparr>active := False\<rparr>)\<rparr>
                          else t) xs)"
  using assms by (intro mapE_Inr_map) (auto simp: tabItemRemoveActive_def safeOpenState_def)

lemma filter_single:
  assumes "i < length ys" "\<forall>j<length ys. P (ys ! j) \<longleftrightarrow> j = i"
  shows "filter P ys = [ys ! i]"
proof -
  have l: "filter P (take i ys) = []"
    using assms by (auto simp: filter_empty_conv in_set_conv_nth)
  have "\<not> P (drop (Suc i) ys ! j)" if "j < length (drop (Suc i) ys)" for j
    using that assms(2) by simp
  then have r: "filter P (drop (Suc i) ys) = []"
    by (auto simp: filter_empty_conv in_set_conv_nth)
  have "ys = take i ys @ ys ! i # drop (Suc i) ys"
    using assms(1) by (rule id_take_nth_drop)
  then have "filter P ys = filter P (take i ys @ ys ! i # drop (Suc i) ys)" by simp
  also have "\<dots> = [ys ! i]" using assms l r by simp
  finally show ?thesis .
qed

text \<open>
  C6. If the tab id identifies no open item, \<open>setActiveTab\<close> returns the window
  unchanged. If it identifies an open item (and open items carry their open state), the
  call returns a window that differs from the input in the tab items only; the item list
  is the input list up to active flags, position by position; some position \<open>i\<close> holds
  an open item with that tab id and \<open>active = true\<close>; no item at another position is
  active; so exactly one open item is active.
\<close>

theorem C6_set_active_tab:
  "(findChromeTabId w tabId = None \<longrightarrow> setActiveTab w tabId = Inr w)
   \<and> ((\<forall>t\<in>set (tabItems w). ti_open t \<longrightarrow> openState t \<noteq> None) \<longrightarrow>
       (\<exists>t\<in>set (tabItems w). ti_open t \<and> (\<exists>os. openState t = Some os \<and> openTabId os = tabId)) \<longrightarrow>
       (\<exists>w' i. setActiveTab w tabId = Inr w' \<and> w' = w\<lparr>tabItems := tabItems w'\<rparr>
          \<and> map (\<lambda>t. t\<lparr>openState := map_option (\<lambda>os. os\<lparr>active := False\<rparr>) (openState t)\<rparr>) (tabItems w')
            = map (\<lambda>t. t\<lparr>openState := map_option (\<lambda>os. os\<lparr>active := False\<rparr>) (openState t)\<rparr>) (tabItems w)
          \<and> i < length (tabItems w')
          \<and> ti_open (tabItems w' ! i)
          \<and> (\<exists>os. openState (tabItems w' ! i) = Some os \<and> openTabId os = tabId \<and> active os)
          \<and> (\<forall>j<length (tabItems w'). j \<noteq> i \<longrightarrow> \<not> tabActive (tabItems w' ! j))
          \<and> length (filter tabActive (tabItems w')) = 1))"
proof (intro conjI impI)
  assume "findChromeTabId w tabId = None"
  then show "setActiveTab w tabId = Inr w" by (simp add: setActiveTab_def)
next
  let ?p = "\<lambda>ti. ti_open ti \<and> (case openState ti of Some os \<Rightarrow> openTabId os = tabId | None \<Rightarrow> False)"
  let ?clear = "\<lambda>t. if ti_open t then t\<lparr>openState := Some ((the (openState t))\<lparr>active := False\<rparr>)\<rparr> else t"
  let ?norm = "\<lambda>t. t\<lparr>openState := map_option (\<lambda>os. os\<lparr>active := False\<rparr>) (openState t)\<rparr>"
  assume wf: "\<forall>t\<in>set (tabItems w). ti_open t \<longrightarrow> openState t \<noteq> None"
    and ex: "\<exists>t\<in>set (tabItems w). ti_open t \<and> (\<exists>os. openState t = Some os \<and> openTabId os = tabId)"
  from ex have "\<not> (\<forall>x\<in>set (tabItems w). \<not> ?p x)" by auto
  then have "findChromeTabId w tabId \<noteq> None"
    unfolding findChromeTabId_def findEntry_None .
  then obtain i t0 where find: "findChromeTabId w tabId = Some (i, t0)" by auto
  from findEntry_Some [OF find [unfolded findChromeTabId_def]]
  have i: "i < length (tabItems w)" and t0: "tabItems w ! i = t0" and p: "?p t0" by auto
  from p obtain os0 where os0: "ti_open t0" "openState t0 = Some os0" "openTabId os0 = tabId"
    by (auto split: option.splits)
  define upd where "upd = t0\<lparr>openState := Some (os0\<lparr>active := True\<rparr>)\<rparr>"
  define items' where "items' = (map ?clear (tabItems w))[i := upd]"
  have run: "setActiveTab w tabId = Inr (w\<lparr>tabItems := items'\<rparr>)"
    using find os0 i mapE_tabItemRemoveActive [OF wf]
    by (simp add: setActiveTab_def tabItemActive_def safeOpenState_def splice_replace
        items'_def upd_def)
  have len: "length items' = length (tabItems w)" by (simp add: items'_def)
  have nth: "items' ! j = (if j = i then upd else ?clear (tabItems w ! j))"
    if "j < length (tabItems w)" for j
    using that by (simp add: items'_def nth_list_update)
  have norm: "?norm (items' ! j) = ?norm (tabItems w ! j)" if j: "j < length (tabItems w)" for j
  proof (cases "j = i")
    case True
    with j t0 os0 show ?thesis by (simp add: nth upd_def)
  next
    case False
    from j have "tabItems w ! j \<in> set (tabItems w)" by simp
    with wf have "ti_open (tabItems w ! j) \<longrightarrow> openState (tabItems w ! j) \<noteq> None" by blast
    with False j show ?thesis by (auto simp: nth)
  qed
  have same: "map ?norm items' = map ?norm (tabItems w)"
    using norm len by (intro nth_equalityI) simp_all
  have act_i: "ti_open (items' ! i)"
    "\<exists>os. openState (items' ! i) = Some os \<and> openTabId os = tabId \<and> active os"
    using i os0 by (simp_all add: nth upd_def)
  have act_j: "tabActive (items' ! j) \<longleftrightarrow> j = i" if "j < length items'" for j
    using that len os0 by (auto simp: nth upd_def tabActive_def)
  then have "filter tabActive items' = [items' ! i]"
    using i len by (intro filter_single) simp_all
  then have one: "length (filter tabActive items') = 1" by simp
  from act_j have others: "\<forall>j<length items'. j \<noteq> i \<longrightarrow> \<not> tabActive (items' ! j)" by blast
  show "\<exists>w' i. setActiveTab w tabId = Inr w' \<and> w' = w\<lparr>tabItems := tabItems w'\<rparr>
          \<and> map ?norm (tabItems w') = map ?norm (tabItems w)
          \<and> i < length (tabItems w')
          \<and> ti_open (tabItems w' ! i)
          \<and> (\<exists>os. openState (tabItems w' ! i) = Some os \<and> openTabId os = tabId \<and> active os)
          \<and> (\<forall>j<length (tabItems w'). j \<noteq> i \<longrightarrow> \<not> tabActive (tabItems w' ! j))
          \<and> length (filter tabActive (tabItems w')) = 1"
    using run same i len act_i others one
    by (intro exI [of _ "w\<lparr>tabItems := items'\<rparr>"] exI [of _ i]) simp
qed

theorem C6_set_active_tab_witness:
  "findChromeTabId winBCA 99 = None \<and> setActiveTab winBCA 99 = Inr winBCA
   \<and> list_all (\<lambda>t. ti_open t \<longrightarrow> openState t \<noteq> None) (tabItems winBCA)
   \<and> (\<exists>t\<in>set (tabItems winBCA). ti_open t \<and> (\<exists>os. openState t = Some os \<and> openTabId os = 12))
   \<and> (\<exists>w' i. setActiveTab winBCA 12 = Inr w' \<and> w' = winBCA\<lparr>tabItems := tabItems w'\<rparr>
          \<and> map (\<lambda>t. t\<lparr>openState := map_option (\<lambda>os. os\<lparr>active := False\<rparr>) (openState t)\<rparr>) (tabItems w')
            = map (\<lambda>t. t\<lparr>openState := map_option (\<lambda>os. os\<lparr>active := False\<rparr>) (openState t)\<rparr>) (tabItems winBCA)
          \<and> i < length (tabItems w')
          \<and> ti_open (tabItems w' ! i)
          \<and> (\<exists>os. openState (tabItems w' ! i) = Some os \<and> openTabId os = 12 \<and> active os)
          \<and> (\<forall>j<length (tabItems w'). j \<noteq> i \<longrightarrow> \<not> tabActive (tabItems w' ! j))
          \<and> length (filter tabActive (tabItems w')) = 1)"
proof -
  have miss: "findChromeTabId winBCA 99 = None"
    by (simp add: findChromeTabId_def findEntry_def ex2_defs ex_defs)
  have wf: "\<forall>t\<in>set (tabItems winBCA). ti_open t \<longrightarrow> openState t \<noteq> None"
    by (simp add: ex2_defs ex_defs)
  have hit: "\<exists>t\<in>set (tabItems winBCA). ti_open t \<and> (\<exists>os. openState t = Some os \<and> openTabId os = 12)"
    by (simp add: ex2_defs ex_defs)
  from miss wf hit C6_set_active_tab [of winBCA 99] C6_set_active_tab [of winBCA 12]
  show ?thesis unfolding list_all_iff by blast
qed

lemma setActiveTab_example:
  "setActiveTab winBCA 12 =
     Inr (winBCA\<lparr>tabItems :=
            [(makeOpenTabItem (tabB\<lparr>tab_active := False\<rparr>))\<lparr>ti_saved := True,
                 savedState := Some (makeSavedTabState bmB)\<rparr>,
             makeOpenTabItem (tabC\<lparr>tab_active := True\<rparr>), makeBookmarkedTabItem bmA]\<rparr>)"
  by (simp add: setActiveTab_def findChromeTabId_def findEntry_def tabItemActive_def
      tabItemRemoveActive_def safeOpenState_def listSplice_def resolveBegin_def ex2_defs ex_defs)

subsection \<open>Bookmark changes and the index guard\<close>

text \<open>
  C9. The guard \<open>if (!index)\<close> of \<open>updateTabBookmark\<close> takes index 0 for "not
  found": for the first item of the window a change of title is dropped and the window
  comes back unchanged, whereas the same change for the item at index 2 is applied in
  place.
\<close>

theorem C9_index_zero_not_updated:
  "tabItems winBCA ! 0 = (makeOpenTabItem tabB)\<lparr>ti_saved := True,
                             savedState := Some (makeSavedTabState bmB)\<rparr>
   \<and> indexOf winBCA ((makeOpenTabItem tabB)\<lparr>ti_saved := True,
                             savedState := Some (makeSavedTabState bmB)\<rparr>) = 0
   \<and> c_title ciTitle = Some ''New''
   \<and> updateTabBookmark winBCA ((makeOpenTabItem tabB)\<lparr>ti_saved := True,
                             savedState := Some (makeSavedTabState bmB)\<rparr>) ciTitle = Inr winBCA
   \<and> tabItems winBCA ! 2 = makeBookmarkedTabItem bmA
   \<and> indexOf winBCA (makeBookmarkedTabItem bmA) = 2
   \<and> updateTabBookmark winBCA (makeBookmarkedTabItem bmA) ciTitle =
       Inr (winBCA\<lparr>tabItems := (tabItems winBCA)
              [2 := makeBookmarkedTabItem (bmA\<lparr>bm_title := Some ''New''\<rparr>)]\<rparr>)"
  by (simp add: updateTabBookmark_def indexOf_def listSplice_def resolveBegin_def
      patch_defs ex2_defs ex_defs)

text \<open>
  C4. A lookup that misses should leave the window as it is. In \<open>updateTabBookmark\<close> a
  miss is the index \<open>-1\<close>, which the guard \<open>if (!index)\<close> lets through;
  \<open>splice(-1, 1, item)\<close> then replaces the last item of the window by the patched
  foreign item.
\<close>

theorem C4_bookmark_miss_modifies:
  "makeBookmarkedTabItem bmD \<notin> set (tabItems winBCA)
   \<and> indexOf winBCA (makeBookmarkedTabItem bmD) = - 1
   \<and> updateTabBookmark winBCA (makeBookmarkedTabItem bmD) ciTitle =
       Inr (winBCA\<lparr>tabItems := (tabItems winBCA)
              [2 := makeBookmarkedTabItem (bmD\<lparr>bm_title := Some ''New''\<rparr>)]\<rparr>)
   \<and> updateTabBookmark winBCA (makeBookmarkedTabItem bmD) ciTitle \<noteq> Inr winBCA"
  by (simp add: updateTabBookmark_def indexOf_def listSplice_def resolveBegin_def
      patch_defs ex2_defs ex_defs)

lemma updateTabBookmark_head_noop:
  "updateTabBookmark (w\<lparr>tabItems := t # rest\<rparr>) t ci = Inr (w\<lparr>tabItems := t # rest\<rparr>)"
  by (simp add: updateTabBookmark_def indexOf_def)

lemma indexOfFrom_miss: "t \<notin> set xs \<Longrightarrow> indexOfFrom n t xs = - 1"
  by (induction xs arbitrary: n) auto

subsection \<open>The other lookups that miss\<close>

lemma closeTab_miss: "findChromeTabId w tabId = None \<Longrightarrow> closeTab w tabId = w"
  by (simp add: closeTab_def)

lemma updateTabItem_miss: "findChromeTabId w tabId = None \<Longrightarrow> updateTabItem w tabId ci = Inr w"
  by (simp add: updateTabItem_def)

lemma saveTab_miss:
  "safeOpenState tabItem = Inr os \<Longrightarrow> findChromeTabId w (openTabId os) = None
     \<Longrightarrow> saveTab w tabItem tabNode = Inr w"
  by (simp add: saveTab_def)

lemma findEntryFromE_miss:
  "\<forall>x\<in>set xs. p x = Inr False \<Longrightarrow> findEntryFromE n p xs = Inr None"
  by (induction xs arbitrary: n) auto

lemma unsaveTab_miss:
  assumes arg: "safeSavedState tabItem = Inr b"
      and wf: "\<forall>t\<in>set (tabItems w). ti_saved t \<longrightarrow> savedState t \<noteq> None"
      and miss: "\<forall>t\<in>set (tabItems w). ti_saved t \<longrightarrow> bookmarkId (the (savedState t)) \<noteq> bookmarkId b"
  shows "unsaveTab w tabItem = Inr w"
proof -
  have "sameBookmark tabItem t = Inr False" if t: "t \<in> set (tabItems w)" for t
  proof (cases "ti_saved t")
    case False
    then show ?thesis by (simp add: sameBookmark_def)
  next
    case True
    with wf t obtain a where a: "savedState t = Some a" by auto
    with True have "safeSavedState t = Inr a" by (simp add: safeSavedState_def)
    moreover from miss t True a have "bookmarkId a \<noteq> bookmarkId b" by auto
    ultimately show ?thesis using True arg by (simp add: sameBookmark_def)
  qed
  then show ?thesis by (simp add: unsaveTab_def findEntryFromE_miss)
qed

subsection \<open>A URL change on a merged tab\<close>

lemma winBB_is_merged:
  "mergeSavedOpenTabs [makeBookmarkedTabItem bmB] [makeOpenTabItem tabB, makeOpenTabItem tabB2]
     = Inr (tabItems winBB)"
  by (simp add: mergeSavedOpenTabs_def savedUrlEntry_def safeSavedState_def mergeOpenItem_def
      notOpenSaved_def tabUrl_def winBB_def tabB2_def ex_defs)

lemma foldl_setOpenField_url:
  "c_url ci = Some new \<Longrightarrow>
     o_url (foldl (setOpenField ci) os ks) = (if ''url'' \<in> set ks then new else o_url os)"
  by (induction ks arbitrary: os) (auto simp: setOpenField_def split: option.splits)

lemma url_in_updKeys:
  "c_url ci = Some new \<Longrightarrow> ''url'' \<in> set (intersection openStateKeys (changeInfoKeys ci))"
  by (simp add: intersection_def openStateKeys_def changeInfoKeys_def)

lemma set_list_update_cases:
  assumes "t \<in> set (xs[i := x])"
  shows "t = x \<or> (\<exists>j<length xs. j \<noteq> i \<and> t = xs ! j)"
proof -
  from assms obtain k where k: "k < length xs" "t = xs[i := x] ! k"
    by (auto simp: in_set_conv_nth)
  show ?thesis
  proof (cases "k = i")
    case True
    with k show ?thesis by simp
  next
    case False
    with k have "t = xs ! k" by simp
    with k(1) False show ?thesis by blast
  qed
qed

lemma resetOpenItem_facts:
  "ti_open (resetOpenItem t) = ti_open t" "openState (resetOpenItem t) = openState t"
  "\<not> ti_saved (resetOpenItem t)" "savedState (resetOpenItem t) = None"
  by (simp_all add: resetOpenItem_def)

lemma tabUrl_resetOpenItem:
  "ti_open t \<Longrightarrow> openState t \<noteq> None \<Longrightarrow> tabUrl (resetOpenItem t) = tabUrl t"
  by (auto simp: tabUrl_def resetOpenItem_def)

text \<open>
  C5. In a window whose items carry their states, let the tab id find an
  item that is open and saved, and let the change-info carry a URL other than the saved
  one. If no other open item of the window is on the saved URL, \<open>updateTabItem\<close> returns
  a window in which the tab is an open item under the new URL, with the patched open state
  and without the old saved state, and in which the old saved entry is a separate closed,
  saved-only item.
\<close>

theorem C5_url_change_splits:
  assumes wf: "\<forall>t\<in>set (tabItems w). (ti_open t \<longrightarrow> openState t \<noteq> None)
                                  \<and> (ti_saved t \<longrightarrow> savedState t \<noteq> None)"
      and find: "findChromeTabId w tabId = Some (i, it)"
      and merged: "ti_saved it" "savedState it = Some ss" "openState it = Some os"
      and url: "c_url ci = Some new" "new \<noteq> s_url ss"
      and others: "\<forall>j<length (tabItems w). j \<noteq> i \<longrightarrow> ti_open (tabItems w ! j) \<longrightarrow>
                     tabUrl (tabItems w ! j) \<noteq> s_url ss"
  shows "\<exists>w' os'. updateTabItem w tabId ci = Inr w'
           \<and> os' = foldl (setOpenField ci) os (intersection openStateKeys (changeInfoKeys ci))
           \<and> o_url os' = new
           \<and> (\<exists>x\<in>set (tabItems w'). ti_open x \<and> openState x = Some os' \<and> tabUrl x = new
                  \<and> savedState x \<noteq> Some ss)
           \<and> \<lparr>ti_saved = True, savedState = Some ss, ti_open = False, openState = None\<rparr>
                \<in> set (tabItems w')"
proof -
  define ks where "ks = intersection openStateKeys (changeInfoKeys ci)"
  define os' where "os' = foldl (setOpenField ci) os ks"
  define it' where "it' = it\<lparr>openState := Some os'\<rparr>"
  define items' where "items' = (tabItems w)[i := it']"
  define S where "S = map resetSavedItem (filter ti_saved items')"
  define Op where "Op = map resetOpenItem (filter ti_open items')"
  define m where "m = map_of (rev (map (\<lambda>s. (s_url (the (savedState s)), s)) S))"
  define r where "r = map (mergeOpenItem m) Op @ filter (notOpenSaved (set (map tabUrl Op))) S"
  define old where "old = \<lparr>ti_saved = True, savedState = Some ss, ti_open = False, openState = None\<rparr>"
  from findEntry_Some [OF find [unfolded findChromeTabId_def]]
  have i: "i < length (tabItems w)" and it: "tabItems w ! i = it" and op: "ti_open it" by auto
  have ks: "''url'' \<in> set ks" "ks \<noteq> []" using url_in_updKeys [OF url(1)] by (auto simp: ks_def)
  have new: "o_url os' = new" using ks by (simp add: os'_def foldl_setOpenField_url [OF url(1)])
  have it'_in: "it' \<in> set items'" using i by (simp add: items'_def set_update_memI)
  have it'_facts: "ti_saved it'" "savedState it' = Some ss" "ti_open it'" "openState it' = Some os'"
    using merged op by (simp_all add: it'_def)
  have items'_cases: "t = it' \<or> (\<exists>j<length (tabItems w). j \<noteq> i \<and> t = tabItems w ! j)"
    if "t \<in> set items'" for t
    using that unfolding items'_def by (rule set_list_update_cases)
  have wf': "(ti_open t \<longrightarrow> openState t \<noteq> None) \<and> (ti_saved t \<longrightarrow> savedState t \<noteq> None)"
    if "t \<in> set items'" for t
  proof -
    from items'_cases [OF that] show ?thesis
    proof
      assume "t = it'"
      with it'_facts show ?thesis by simp
    next
      assume "\<exists>j<length (tabItems w). j \<noteq> i \<and> t = tabItems w ! j"
      then have "t \<in> set (tabItems w)" by auto
      with wf show ?thesis by blast
    qed
  qed
  have S: "\<forall>s\<in>set S. ti_saved s \<and> savedState s \<noteq> None"
    using wf' by (auto simp: S_def resetSavedItem_facts)
  have merge: "mergeSavedOpenTabs S Op = Inr r"
    using merge_ok [OF S, of Op] by (simp add: m_def r_def)
  have run: "updateTabItem w tabId ci = Inr (w\<lparr>tabItems := r\<rparr>)"
    using find merged(3) ks(2) url(1) i merge
    by (simp add: updateTabItem_def mergeTabWindowTabItems_def splice_replace
        ks_def [symmetric] os'_def [symmetric] it'_def [symmetric] items'_def [symmetric]
        S_def [symmetric] Op_def [symmetric])
  \<comment> \<open>the old saved entry comes back as a closed item\<close>
  have "resetSavedItem it' = old"
    using it'_facts by (simp add: resetSavedItem_def old_def)
  with it'_in it'_facts(1) have old_S: "old \<in> set S"
    by (force simp: S_def)
  have "tabUrl x \<noteq> s_url ss" if x: "x \<in> set Op" for x
  proof -
    from x obtain t where t: "t \<in> set items'" "ti_open t" "x = resetOpenItem t"
      by (auto simp: Op_def)
    from wf' [OF t(1)] t(2) have os_t: "openState t \<noteq> None" by simp
    with t have xu: "tabUrl x = tabUrl t" by (simp add: tabUrl_resetOpenItem)
    from items'_cases [OF t(1)] show ?thesis
    proof
      assume "t = it'"
      with it'_facts new url(2) xu show ?thesis by (simp add: tabUrl_def)
    next
      assume "\<exists>j<length (tabItems w). j \<noteq> i \<and> t = tabItems w ! j"
      with others t(2) xu show ?thesis by auto
    qed
  qed
  then have "s_url ss \<notin> set (map tabUrl Op)" by force
  then have "notOpenSaved (set (map tabUrl Op)) old" by (simp add: notOpenSaved_def old_def)
  with old_S have old_r: "old \<in> set r" by (simp add: r_def)
  \<comment> \<open>the tab stays open under the new URL, without the old saved state\<close>
  define x where "x = mergeOpenItem m (resetOpenItem it')"
  have "resetOpenItem it' \<in> set Op" using it'_in it'_facts(3) by (force simp: Op_def)
  then have x_r: "x \<in> set r" by (simp add: r_def x_def)
  have x_open: "ti_open x" "openState x = Some os'"
    using it'_facts by (simp_all add: x_def mergeOpenItem_open resetOpenItem_facts)
  then have x_url: "tabUrl x = new" using new by (simp add: tabUrl_def)
  have x_saved: "savedState x \<noteq> Some ss"
  proof (cases "m new")
    case None
    then have "x = resetOpenItem it'"
      using it'_facts new by (simp add: x_def mergeOpenItem_miss resetOpenItem_facts)
    then show ?thesis by (simp add: resetOpenItem_facts)
  next
    case (Some si)
    then have si: "si \<in> set S" "s_url (the (savedState si)) = new"
      unfolding m_def by (auto dest: savedUrlMap_Some)
    from Some have "x = (resetOpenItem it')\<lparr>ti_saved := True, savedState := savedState si\<rparr>"
      using it'_facts new by (simp add: x_def mergeOpenItem_hit resetOpenItem_facts)
    then have "savedState x = savedState si" by simp
    with si(2) url(2) show ?thesis by auto
  qed
  from run new x_r x_open x_url x_saved old_r show ?thesis
    unfolding os'_def ks_def old_def
    by (intro exI [of _ "w\<lparr>tabItems := r\<rparr>"] exI [of _ os']) (auto simp: os'_def ks_def)
qed

text \<open>
  C5, when a second open tab is on the saved URL. The re-merge attaches the saved entry
  to that tab: the result has two open items and no closed one.
\<close>

theorem C5_second_tab_counterexample:
  "findChromeTabId winBB 11 = Some (0, tabItems winBB ! 0)
   \<and> ti_saved (tabItems winBB ! 0) \<and> ti_open (tabItems winBB ! 0)
   \<and> tabUrl (tabItems winBB ! 0) = ''b.com''
   \<and> savedState (tabItems winBB ! 0) = Some (makeSavedTabState bmB)
   \<and> s_url (makeSavedTabState bmB) = ''b.com''
   \<and> c_url ciUrl = Some ''new.com''
   \<and> updateTabItem winBB 11 ciUrl =
       Inr (winBB\<lparr>tabItems :=
              [makeOpenTabItem (tabB\<lparr>tab_url := Some ''new.com''\<rparr>),
               (makeOpenTabItem tabB2)\<lparr>ti_saved := True,
                  savedState := Some (makeSavedTabState bmB)\<rparr>]\<rparr>)
   \<and> ti_open (makeOpenTabItem (tabB\<lparr>tab_url := Some ''new.com''\<rparr>))
   \<and> ti_open ((makeOpenTabItem tabB2)\<lparr>ti_saved := True,
                  savedState := Some (makeSavedTabState bmB)\<rparr>)"
  by (simp add: updateTabItem_def mergeTabWindowTabItems_def findChromeTabId_def findEntry_def
      listSplice_def resolveBegin_def mergeSavedOpenTabs_def savedUrlEntry_def safeSavedState_def
      mergeOpenItem_def notOpenSaved_def tabUrl_def resetSavedItem_def resetOpenItem_def
      winBB_def tabB2_def patch_defs ex2_defs ex_defs)

theorem C5_url_change_splits_witness:
  "findChromeTabId winBCA 11 = Some (0, tabItems winBCA ! 0)
   \<and> savedState (tabItems winBCA ! 0) = Some (makeSavedTabState bmB)
   \<and> c_url ciUrl = Some ''new.com'' \<and> s_url (makeSavedTabState bmB) = ''b.com''
   \<and> (\<exists>w'. updateTabItem winBCA 11 ciUrl = Inr w'
          \<and> (\<exists>x\<in>set (tabItems w'). ti_open x \<and> tabUrl x = ''new.com''
                 \<and> savedState x \<noteq> Some (makeSavedTabState bmB))
          \<and> makeBookmarkedTabItem bmB \<in> set (tabItems w'))"
proof -
  have wf: "\<forall>t\<in>set (tabItems winBCA). (ti_open t \<longrightarrow> openState t \<noteq> None)
                                  \<and> (ti_saved t \<longrightarrow> savedState t \<noteq> None)"
    by (simp add: ex2_defs ex_defs)
  have find: "findChromeTabId winBCA 11 = Some (0, tabItems winBCA ! 0)"
    by (simp add: findChromeTabId_def findEntry_def ex2_defs ex_defs)
  have merged: "ti_saved (tabItems winBCA ! 0)"
    "savedState (tabItems winBCA ! 0) = Some (makeSavedTabState bmB)"
    "openState (tabItems winBCA ! 0) = Some (makeOpenTabState tabB)"
    by (simp_all add: ex2_defs ex_defs)
  have url: "c_url ciUrl = Some ''new.com''" "''new.com'' \<noteq> s_url (makeSavedTabState bmB)"
    and old: "s_url (makeSavedTabState bmB) = ''b.com''"
    by (simp_all add: ex2_defs ex_defs)
  have others: "\<forall>j<length (tabItems winBCA). j \<noteq> 0 \<longrightarrow> ti_open (tabItems winBCA ! j) \<longrightarrow>
                     tabUrl (tabItems winBCA ! j) \<noteq> s_url (makeSavedTabState bmB)"
    by (simp add: ex2_defs ex_defs tabUrl_def less_Suc_eq numeral_3_eq_3)
  have item: "makeBookmarkedTabItem bmB
         = \<lparr>ti_saved = True, savedState = Some (makeSavedTabState bmB), ti_open = False,
            openState = None\<rparr>"
    by (simp add: makeBookmarkedTabItem_def)
  from C5_url_change_splits [OF wf find merged url others] find merged(2) url(1) old item
  show ?thesis by auto
qed

lemma updateTabItem_split_example:
  "updateTabItem winBCA 11 ciUrl =
     Inr (winBCA\<lparr>tabItems :=
            [makeOpenTabItem (tabB\<lparr>tab_url := Some ''new.com''\<rparr>), makeOpenTabItem tabC,
             makeBookmarkedTabItem bmB, makeBookmarkedTabItem bmA]\<rparr>)"
  by (simp add: updateTabItem_def mergeTabWindowTabItems_def findChromeTabId_def findEntry_def
      listSplice_def resolveBegin_def mergeSavedOpenTabs_def savedUrlEntry_def safeSavedState_def
      mergeOpenItem_def notOpenSaved_def tabUrl_def resetSavedItem_def resetOpenItem_def
      patch_defs ex2_defs ex_defs)

end
